theory Spec2Isabelle
  imports Complex_Main
begin

section \<open>Strings and numbers of the host language\<close>

text \<open>
  The program is a TypeScript (React) application. Its strings are modelled as
  \<^typ>\<open>string\<close>, its integer-valued numbers as \<^typ>\<open>nat\<close> or \<^typ>\<open>int\<close>.
  A JavaScript number is a double: the integer model is exact below \<open>2 ^ 53\<close>, and
  the decimal rendering of a template literal is plain digits below \<open>10 ^ 21\<close>.
\<close>

definition isDigit :: "char \<Rightarrow> bool" where
  \<comment> \<open>the regular expression class \<open>\d\<close>: the ten ASCII digits\<close>
  "isDigit c \<longleftrightarrow> 48 \<le> (of_char c :: nat) \<and> (of_char c :: nat) \<le> 57"

definition digitVal :: "char \<Rightarrow> nat" where
  "digitVal c = of_char c - 48"

definition digitChar :: "nat \<Rightarrow> char" where
  "digitChar d = char_of (48 + d)"

definition parseInt10 :: "string \<Rightarrow> nat" where
  \<comment> \<open>\<open>parseInt(s, 10)\<close> on a string of digits (the only strings it is applied to)\<close>
  "parseInt10 s = foldl (\<lambda>n c. 10 * n + digitVal c) 0 s"

fun showNat :: "nat \<Rightarrow> string" where
  \<comment> \<open>the decimal rendering of a number inside a template literal\<close>
  "showNat n = (if n < 10 then [digitChar n] else showNat (n div 10) @ [digitChar (n mod 10)])"

declare showNat.simps [simp del]

definition showInt :: "int \<Rightarrow> string" where
  "showInt i = (if i < 0 then CHR ''-'' # showNat (nat (- i)) else showNat (nat i))"

section \<open>Versions\<close>

text \<open>
  \<^verbatim>\<open>
  function parseVersion(v: string) {
    const m = v.match(/^(\d+)\.(\d+)$/);
    if (!m) return { major: 1, minor: 0 };
    return { major: parseInt(m[1], 10) || 1, minor: parseInt(m[2], 10) || 0 };
  }
  function bumpVersion(v: string) {
    const { major, minor } = parseVersion(v);
    if (minor < 9) return `${major}.${minor + 1}`;
    return `${major + 1}.0`;
  }
  \<close>
  \<open>matchVersion\<close> is the regular expression: a digit cannot be a dot, so the first
  group is the longest prefix of digits, and the rest must be a dot followed by one or
  more digits up to the end of the string.
\<close>

definition matchVersion :: "string \<Rightarrow> (string \<times> string) option" where
  "matchVersion v =
     (let a = takeWhile isDigit v in
      case dropWhile isDigit v of
        [] \<Rightarrow> None
      | c # b \<Rightarrow>
          if c = CHR ''.'' \<and> a \<noteq> [] \<and> b \<noteq> [] \<and> list_all isDigit b then Some (a, b)
          else None)"

definition orElse :: "nat \<Rightarrow> nat \<Rightarrow> nat" where
  \<comment> \<open>\<open>n || d\<close> on numbers: zero is falsy\<close>
  "orElse n d = (if n = 0 then d else n)"

definition parseVersion :: "string \<Rightarrow> nat \<times> nat" where
  "parseVersion v =
     (case matchVersion v of
        None \<Rightarrow> (1, 0)
      | Some (a, b) \<Rightarrow> (orElse (parseInt10 a) 1, orElse (parseInt10 b) 0))"

definition bumpVersion :: "string \<Rightarrow> string" where
  "bumpVersion v =
     (let (major, minor) = parseVersion v in
      if minor < 9 then showNat major @ ''.'' @ showNat (minor + 1)
      else showNat (major + 1) @ ''.0'')"

text \<open>
  The pattern \<open>^(\d+)\.(\d+)$\<close> as a property of the string: digits, a dot, digits.
\<close>

definition versionForm :: "string \<Rightarrow> bool" where
  "versionForm v \<longleftrightarrow>
     (\<exists>a b. v = a @ CHR ''.'' # b \<and> a \<noteq> [] \<and> b \<noteq> [] \<and> list_all isDigit a \<and> list_all isDigit b)"


subsection \<open>The older \<open>bumpVersion\<close>\<close>

text \<open>
  The file \<open>src/App.tsx\<close> has an older version of the program, with this function:
  \<^verbatim>\<open>
  function bumpVersion(ver: string) {
    const [major, minor] = ver.split(".").map((v) => parseInt(v));
    return minor < 9 ? `${major}.${minor + 1}` : `${major + 1}.0`;
  }
  \<close>
  \<open>parseInt\<close> without a radix skips white space and a sign, reads hexadecimal digits
  after \<open>0x\<close> and decimal digits otherwise, up to the first character that is no digit,
  and gives \<open>NaN\<close> (here \<open>None\<close>) when there is no digit. Of the white space
  characters the model has those below 256. A comparison with \<open>NaN\<close> or \<open>undefined\<close>
  is false.
\<close>

fun splitDot :: "string \<Rightarrow> string list" where
  "splitDot [] = [[]]"
| "splitDot (c # cs) =
     (if c = CHR ''.'' then [] # splitDot cs
      else (case splitDot cs of p # ps \<Rightarrow> (c # p) # ps | [] \<Rightarrow> [[c]]))"

definition isSpace :: "char \<Rightarrow> bool" where
  "isSpace c \<longleftrightarrow> (of_char c :: nat) \<in> {9, 10, 11, 12, 13, 32, 160}"

definition hexVal :: "char \<Rightarrow> nat option" where
  "hexVal c =
     (let n = (of_char c :: nat) in
      if 48 \<le> n \<and> n \<le> 57 then Some (n - 48)
      else if 65 \<le> n \<and> n \<le> 70 then Some (n - 55)
      else if 97 \<le> n \<and> n \<le> 102 then Some (n - 87)
      else None)"

definition parseInt :: "string \<Rightarrow> int option" where
  "parseInt v =
     (let s = dropWhile isSpace v;
          neg = (case s of c # r \<Rightarrow> c = CHR ''-'' | [] \<Rightarrow> False);
          s1 = (case s of c # r \<Rightarrow> if c = CHR ''-'' \<or> c = CHR ''+'' then r else s | [] \<Rightarrow> s);
          hex = (case s1 of a # b # r \<Rightarrow> a = CHR ''0'' \<and> (b = CHR ''x'' \<or> b = CHR ''X'') | _ \<Rightarrow> False);
          ds = (if hex then takeWhile (\<lambda>c. hexVal c \<noteq> None) (drop 2 s1) else takeWhile isDigit s1);
          n = (if hex then foldl (\<lambda>n c. 16 * n + the (hexVal c)) 0 ds else parseInt10 ds)
      in if ds = [] then None else Some (if neg then - int n else int n))"

definition showNum :: "int option \<Rightarrow> string" where
  "showNum x = (case x of None \<Rightarrow> ''NaN'' | Some i \<Rightarrow> showInt i)"

definition bumpVersion_App :: "string \<Rightarrow> string" where
  "bumpVersion_App ver =
     (let parts = map parseInt (splitDot ver);
          major = (case parts of m # _ \<Rightarrow> m | [] \<Rightarrow> None);
          minor = (case parts of _ # n # _ \<Rightarrow> n | _ \<Rightarrow> None)
      in if (case minor of Some n \<Rightarrow> n < 9 | None \<Rightarrow> False)
         then showNum major @ ''.'' @ showNum (map_option (\<lambda>n. n + 1) minor)
         else showNum (map_option (\<lambda>n. n + 1) major) @ ''.0'')"

section \<open>JSON values\<close>

text \<open>
  What \<open>JSON.parse\<close> returns. An object is the list of its keys and values, in the
  order \<open>JSON.stringify\<close> writes them; a number is modelled by an integer (the program
  looks at a number of a payload only through \<open>typeof\<close>, its truthiness and
  \<open>String\<close>). \<open>undefined\<close>, which is not a JSON value, is \<open>None\<close> of
  \<^typ>\<open>'a option\<close>.
\<close>

datatype json =
    JNull
  | JBool bool
  | JNum int
  | JStr string
  | JArr "json list"
  | JObj "(string \<times> json) list"

fun joinComma :: "string list \<Rightarrow> string" where
  "joinComma [] = []"
| "joinComma [x] = x"
| "joinComma (x # y # ys) = x @ '','' @ joinComma (y # ys)"

text \<open>
  The conversion of a value to a string, which \<open>String(v)\<close>, \<open>regex.test(v)\<close> and a
  template literal perform, can throw. An object is converted by its method \<open>toString\<close>,
  which every object inherits. An object of a payload that has a key \<open>toString\<close> of its
  own hides the inherited method by a value that cannot be called (no JSON value can);
  the inherited \<open>valueOf\<close> returns the object itself, and the conversion throws a
  \<open>TypeError\<close>. An array is its elements joined by commas, \<open>null\<close> elements empty, and
  throws when the conversion of an element does.
\<close>

datatype js_error = TypeError

fun collect :: "(js_error + 'a) list \<Rightarrow> js_error + 'a list" where
  \<comment> \<open>the results of a loop whose body may throw: the first exception ends it\<close>
  "collect [] = Inr []"
| "collect (x # xs) =
     (case x of
        Inl e \<Rightarrow> Inl e
      | Inr v \<Rightarrow> (case collect xs of Inl e \<Rightarrow> Inl e | Inr vs \<Rightarrow> Inr (v # vs)))"

fun String_js :: "json \<Rightarrow> js_error + string" where
  "String_js JNull = Inr ''null''"
| "String_js (JBool b) = Inr (if b then ''true'' else ''false'')"
| "String_js (JNum n) = Inr (showInt n)"
| "String_js (JStr s) = Inr s"
| "String_js (JArr xs) =
     (case collect (map (\<lambda>x. if x = JNull then Inr [] else String_js x) xs) of
        Inl e \<Rightarrow> Inl e
      | Inr ss \<Rightarrow> Inr (joinComma ss))"
| "String_js (JObj kvs) =
     (if ''toString'' \<in> set (map fst kvs) then Inl TypeError else Inr ''[object Object]'')"

definition String_u :: "json option \<Rightarrow> js_error + string" where
  \<comment> \<open>the conversion of a value that may be \<open>undefined\<close>\<close>
  "String_u v = (case v of None \<Rightarrow> Inr ''undefined'' | Some j \<Rightarrow> String_js j)"

definition templateText :: "json \<Rightarrow> string" where
  \<comment> \<open>the text of \<open>`${v}`\<close> where the conversion of \<open>v\<close> does not throw; \<open>exportPDF\<close>
      below draws with it only then\<close>
  "templateText v = (case String_js v of Inl e \<Rightarrow> [] | Inr s \<Rightarrow> s)"

fun truthy :: "json \<Rightarrow> bool" where
  "truthy JNull = False"
| "truthy (JBool b) = b"
| "truthy (JNum n) = (n \<noteq> 0)"
| "truthy (JStr s) = (s \<noteq> [])"
| "truthy (JArr xs) = True"
| "truthy (JObj kvs) = True"

definition truthy_u :: "json option \<Rightarrow> bool" where
  \<comment> \<open>\<open>!!v\<close>, for a value that may be \<open>undefined\<close>\<close>
  "truthy_u v = (case v of None \<Rightarrow> False | Some j \<Rightarrow> truthy j)"

definition or_js :: "json option \<Rightarrow> json \<Rightarrow> json" where
  \<comment> \<open>\<open>v || d\<close>\<close>
  "or_js v d = (case v of None \<Rightarrow> d | Some j \<Rightarrow> if truthy j then j else d)"

fun getProp :: "json \<Rightarrow> string \<Rightarrow> json option" where
  \<comment> \<open>\<open>v.k\<close> for the keys the program reads, on a value that is not \<open>null\<close>: only an
      object of the payload has them\<close>
  "getProp (JObj kvs) k = map_of kvs k"
| "getProp v k = None"

definition isArray :: "json option \<Rightarrow> bool" where
  "isArray v = (case v of Some (JArr xs) \<Rightarrow> True | _ \<Rightarrow> False)"

definition elems :: "json option \<Rightarrow> json list" where
  "elems v = (case v of Some (JArr xs) \<Rightarrow> xs | _ \<Rightarrow> [])"

section \<open>The process record and the editor state\<close>

text \<open>
  \<^verbatim>\<open>
  interface TextItem { id: string; content: string; important: boolean; }
  interface StepData { index: number; photos: string[]; texts: TextItem[]; done?: boolean; }
  interface ProcessData { name: string; version: string; createdAt: string; steps: StepData[]; }
  \<close>
  The types of TypeScript are erased when the program runs, and \<open>loadProcess\<close> stores
  \<open>obj.version\<close> and \<open>obj.createdAt\<close> as the file has them: these two fields hold a
  JSON value, a string in every record the program creates itself. The optional field
  \<open>done\<close> is \<open>None\<close> when the object has no such key.
\<close>

record TextItem =
  id' :: string
  content :: string
  important :: bool

record StepData =
  index :: int
  photos :: "string list"
  texts :: "TextItem list"
  done' :: "bool option"

record ProcessData =
  name :: string
  version :: json
  createdAt :: json
  steps :: "StepData list"

text \<open>
  The state of the component \<open>App\<close>: one field for each \<open>useState\<close>. The snapshot of
  the last finalization is the JSON text of a record; it is kept as the JSON value that
  text writes down (two values are written alike only when they are equal).
\<close>

record app =
  process :: "ProcessData option"
  currentIndex :: nat
  pendingPhotos :: "string list"
  pendingTexts :: "TextItem list"
  textDraft :: string
  textImportant :: bool
  lastSnapshot :: "json option"
  finalized :: bool

definition initialApp :: app where
  "initialApp =
     \<lparr>process = None, currentIndex = 0, pendingPhotos = [], pendingTexts = [],
      textDraft = [], textImportant = False, lastSnapshot = None, finalized = False\<rparr>"

subsection \<open>Serialization\<close>

definition textJSON :: "TextItem \<Rightarrow> json" where
  "textJSON t =
     JObj [(''id'', JStr (id' t)), (''content'', JStr (content t)),
           (''important'', JBool (important t))]"

definition stepJSON :: "StepData \<Rightarrow> json" where
  "stepJSON s =
     JObj ([(''index'', JNum (index s)), (''photos'', JArr (map JStr (photos s))),
            (''texts'', JArr (map textJSON (texts s)))]
           @ (case done' s of None \<Rightarrow> [] | Some b \<Rightarrow> [(''done'', JBool b)]))"

definition toJSON :: "ProcessData \<Rightarrow> json" where
  \<comment> \<open>the value \<open>JSON.stringify(process)\<close> writes, and \<open>JSON.parse\<close> reads back\<close>
  "toJSON p =
     JObj [(''name'', JStr (name p)), (''version'', version p), (''createdAt'', createdAt p),
           (''steps'', JArr (map stepJSON (steps p)))]"

subsection \<open>Editing and finalization\<close>

definition ensureIndices :: "StepData list \<Rightarrow> StepData list" where
  \<comment> \<open>\<open>for (let i = 0; i < p.steps.length; i++) p.steps[i].index = i + 1\<close>\<close>
  "ensureIndices ss = map (\<lambda>(i, s). s\<lparr>index := int i + 1\<rparr>) (enumerate 0 ss)"

definition startNew :: "string \<Rightarrow> string \<Rightarrow> string \<Rightarrow> app \<Rightarrow> app" where
  \<comment> \<open>\<open>startNew\<close>, given the two input fields after \<open>trim()\<close> and the clock's ISO time;
      an empty name is refused with an alert\<close>
  "startNew nameTrimmed versionTrimmed now st =
     (if nameTrimmed = [] then st
      else st\<lparr>process := Some \<lparr>name = nameTrimmed,
                 version = JStr (if versionTrimmed = [] then ''1.0'' else versionTrimmed),
                 createdAt = JStr now,
                 steps = [\<lparr>index = 1, photos = [], texts = [], done' = None\<rparr>]\<rparr>,
               currentIndex := 0, pendingPhotos := [], pendingTexts := [],
               textDraft := [], textImportant := False,
               lastSnapshot := None, finalized := False\<rparr>)"

definition syncEditor :: "app \<Rightarrow> app" where
  \<comment> \<open>the effect on \<open>[currentIndex, process]\<close>: reload the editor's buffers from the step\<close>
  "syncEditor st =
     (case process st of
        None \<Rightarrow> st
      | Some p \<Rightarrow>
          if currentIndex st < length (steps p)
          then st\<lparr>pendingPhotos := photos (steps p ! currentIndex st),
                  pendingTexts := texts (steps p ! currentIndex st),
                  textDraft := [], textImportant := False\<rparr>
          else st)"

definition takeBuffers :: "app \<Rightarrow> StepData list \<Rightarrow> StepData list" where
  \<comment> \<open>\<open>const step = draft.steps[currentIndex]; if (step) { step.photos = pendingPhotos;
      step.texts = pendingTexts; }\<close>\<close>
  "takeBuffers st ss =
     (if currentIndex st < length ss
      then ss[currentIndex st := (ss ! currentIndex st)\<lparr>photos := pendingPhotos st,
                                                         texts := pendingTexts st\<rparr>]
      else ss)"

definition dropLastEmpty :: "StepData list \<Rightarrow> StepData list" where
  \<comment> \<open>\<open>if (draft.steps.length > 0) { const last = ...; if (last.photos.length === 0 &&
      last.texts.length === 0) draft.steps.pop(); }\<close>\<close>
  "dropLastEmpty ss =
     (if ss \<noteq> [] \<and> photos (last ss) = [] \<and> texts (last ss) = [] then butlast ss else ss)"

definition snapshotOf :: "ProcessData \<Rightarrow> json" where
  \<comment> \<open>\<open>JSON.stringify({ ...draft, createdAt: "X", version: "X" })\<close>\<close>
  "snapshotOf draft = toJSON (draft\<lparr>createdAt := JStr ''X'', version := JStr ''X''\<rparr>)"

definition finishProcess :: "app \<Rightarrow> js_error + app" where
  \<comment> \<open>\<open>bumpVersion\<close> calls \<open>v.match\<close>: on a version that is not a string it throws, and
      the handler ends before any state is set\<close>
  "finishProcess st =
     (case process st of
        None \<Rightarrow> Inr st
      | Some p \<Rightarrow>
          let draft = p\<lparr>steps := ensureIndices (dropLastEmpty (takeBuffers st (steps p)))\<rparr>;
              snap = snapshotOf draft
          in if lastSnapshot st = None \<or> lastSnapshot st \<noteq> Some snap
             then (case version draft of
                     JStr v \<Rightarrow>
                       Inr (st\<lparr>process := Some (draft\<lparr>version := JStr (bumpVersion v)\<rparr>),
                               lastSnapshot := Some snap, finalized := True\<rparr>)
                   | _ \<Rightarrow> Inl TypeError)
             else Inr (st\<lparr>process := Some draft, lastSnapshot := Some snap,
                          finalized := True\<rparr>))"

text \<open>
  The editor's operations. \<open>commitStepEdits\<close> writes the buffers into the current step,
  applies the caller's change and renumbers the steps; \<open>finishStep\<close> marks the current
  step done and appends an empty step (\<open>draft.steps[currentIndex].done = true\<close> throws
  when there is no such step); \<open>backStep\<close> commits and moves one step back. The uploaded
  data URLs, the trimmed draft and the fresh \<open>uid()\<close> are parameters.
\<close>

definition commitStepEdits :: "(ProcessData \<Rightarrow> js_error + ProcessData) \<Rightarrow> app \<Rightarrow> js_error + app" where
  "commitStepEdits mutator st =
     (case process st of
        None \<Rightarrow> Inr st
      | Some p \<Rightarrow>
          (case mutator (p\<lparr>steps := takeBuffers st (steps p)\<rparr>) of
             Inl e \<Rightarrow> Inl e
           | Inr draft \<Rightarrow>
               Inr (st\<lparr>process := Some (draft\<lparr>steps := ensureIndices (steps draft)\<rparr>),
                       finalized := False\<rparr>)))"

definition onPhotoUpload :: "string list \<Rightarrow> app \<Rightarrow> app" where
  "onPhotoUpload urls st = st\<lparr>pendingPhotos := pendingPhotos st @ urls\<rparr>"

definition removePhotoAt :: "nat \<Rightarrow> app \<Rightarrow> app" where
  "removePhotoAt i st =
     st\<lparr>pendingPhotos := map snd (filter (\<lambda>(idx, u). idx \<noteq> i) (enumerate 0 (pendingPhotos st)))\<rparr>"

definition addText :: "string \<Rightarrow> string \<Rightarrow> app \<Rightarrow> app" where
  "addText fresh c st =
     (if c = [] then st
      else st\<lparr>pendingTexts := pendingTexts st
                  @ [\<lparr>id' = fresh, content = c, important = textImportant st\<rparr>],
              textDraft := [], textImportant := False\<rparr>)"

definition removeText :: "string \<Rightarrow> app \<Rightarrow> app" where
  "removeText i st = st\<lparr>pendingTexts := filter (\<lambda>t. id' t \<noteq> i) (pendingTexts st)\<rparr>"

definition canFinishStep :: "app \<Rightarrow> bool" where
  "canFinishStep st \<longleftrightarrow> pendingPhotos st \<noteq> [] \<and> pendingTexts st \<noteq> []"

definition finishStep :: "app \<Rightarrow> js_error + app" where
  "finishStep st =
     (if process st = None \<or> \<not> canFinishStep st then Inr st
      else
        (case commitStepEdits
                (\<lambda>draft.
                   if currentIndex st < length (steps draft)
                   then Inr (draft\<lparr>steps :=
                          (steps draft)[currentIndex st :=
                             (steps draft ! currentIndex st)\<lparr>done' := Some True\<rparr>]
                          @ [\<lparr>index = int (length (steps draft)) + 1, photos = [], texts = [],
                              done' = None\<rparr>]\<rparr>)
                   else Inl TypeError) st of
           Inl e \<Rightarrow> Inl e
         | Inr st1 \<Rightarrow>
             Inr (st1\<lparr>currentIndex := currentIndex st + 1, pendingPhotos := [],
                      pendingTexts := [], textDraft := [], textImportant := False\<rparr>)))"

definition backStep :: "app \<Rightarrow> js_error + app" where
  "backStep st =
     (if currentIndex st = 0 then Inr st
      else (case commitStepEdits Inr st of
              Inl e \<Rightarrow> Inl e
            | Inr st1 \<Rightarrow> Inr (st1\<lparr>currentIndex := currentIndex st - 1\<rparr>)))"

subsection \<open>Loading a saved process\<close>

text \<open>
  \<open>loadProcess\<close> reads the file's text and parses it. \<open>Unparsable\<close> is a text on which
  \<open>JSON.parse\<close> throws. The two alerts are \<open>alert("Ungueltige Datei.")\<close> (written with
  u-umlaut in the source) and \<open>alert("Konnte die Datei nicht laden.")\<close>, the second one
  in the handler that catches every exception. \<open>uid()\<close> is random: the identifier it
  returns for text \<open>j\<close> of step \<open>i\<close> is a parameter, as is the clock.
\<close>

datatype upload = NoFile | Unparsable | Payload json

datatype alert = InvalidFile | CouldNotLoad | FinalizeFirst

definition optChain :: "json \<Rightarrow> string \<Rightarrow> json option" where
  \<comment> \<open>\<open>t?.k\<close>\<close>
  "optChain t k = (if t = JNull then None else getProp t k)"

definition normalizeText :: "string \<Rightarrow> json \<Rightarrow> js_error + TextItem" where
  \<comment> \<open>\<open>({ id: String(t?.id || uid()), content: String(t?.content || ""),
      important: !!t?.important })\<close>\<close>
  "normalizeText fresh t =
     (case String_js (or_js (optChain t ''id'') (JStr fresh)) of
        Inl e \<Rightarrow> Inl e
      | Inr i \<Rightarrow>
          (case String_js (or_js (optChain t ''content'') (JStr [])) of
             Inl e \<Rightarrow> Inl e
           | Inr c \<Rightarrow>
               Inr \<lparr>id' = i, content = c, important = truthy_u (optChain t ''important'')\<rparr>))"

definition normalizeStep :: "(nat \<Rightarrow> string) \<Rightarrow> nat \<Rightarrow> json \<Rightarrow> js_error + StepData" where
  \<comment> \<open>the body of \<open>obj.steps.map((s, i) => ...)\<close>; \<open>s.index\<close> throws when \<open>s\<close> is \<open>null\<close>,
      \<open>s.photos.map(String)\<close> when the conversion of a photo does\<close>
  "normalizeStep fresh i s =
     (if s = JNull then Inl TypeError
      else
        (case (if isArray (getProp s ''photos'')
               then collect (map String_js (elems (getProp s ''photos''))) else Inr []) of
           Inl e \<Rightarrow> Inl e
         | Inr ps \<Rightarrow>
             (case (if isArray (getProp s ''texts'')
                    then collect (map (\<lambda>(j, t). normalizeText (fresh j) t)
                                   (enumerate 0 (elems (getProp s ''texts''))))
                    else Inr []) of
                Inl e \<Rightarrow> Inl e
              | Inr ts \<Rightarrow>
                  Inr \<lparr>index = (case getProp s ''index'' of Some (JNum n) \<Rightarrow> n | _ \<Rightarrow> int i + 1),
                       photos = ps, texts = ts,
                       done' = Some (truthy_u (getProp s ''done''))\<rparr>)))"

fun normalizeSteps :: "(nat \<Rightarrow> nat \<Rightarrow> string) \<Rightarrow> nat \<Rightarrow> json list \<Rightarrow> js_error + StepData list" where
  "normalizeSteps uid i [] = Inr []"
| "normalizeSteps uid i (s # ss) =
     (case normalizeStep (uid i) i s of
        Inl e \<Rightarrow> Inl e
      | Inr x \<Rightarrow>
          (case normalizeSteps uid (Suc i) ss of
             Inl e \<Rightarrow> Inl e
           | Inr xs \<Rightarrow> Inr (x # xs)))"

definition normalizeVersion :: "json option \<Rightarrow> js_error + json" where
  \<comment> \<open>\<open>/^\d+\.\d+$/.test(obj.version) ? obj.version : "1.0"\<close>; \<open>test\<close> converts its
      argument to a string, and the text \<open>undefined\<close> does not match\<close>
  "normalizeVersion v =
     (case String_u v of
        Inl e \<Rightarrow> Inl e
      | Inr s \<Rightarrow>
          Inr (if matchVersion s \<noteq> None then (case v of Some j \<Rightarrow> j | None \<Rightarrow> JNull)
               else JStr ''1.0''))"

definition loadProcess :: "string \<Rightarrow> (nat \<Rightarrow> nat \<Rightarrow> string) \<Rightarrow> upload \<Rightarrow> app \<Rightarrow> alert option \<times> app" where
  "loadProcess now uid file st =
     (case file of
        NoFile \<Rightarrow> (None, st)
      | Unparsable \<Rightarrow> (Some CouldNotLoad, st)
      | Payload obj \<Rightarrow>
          if \<not> truthy obj \<or> \<not> truthy_u (getProp obj ''name'') \<or> \<not> isArray (getProp obj ''steps'')
          then (Some InvalidFile, st)
          else
            (case String_u (getProp obj ''name'') of
               Inl e \<Rightarrow> (Some CouldNotLoad, st)
             | Inr nm \<Rightarrow>
            (case normalizeVersion (getProp obj ''version'') of
               Inl e \<Rightarrow> (Some CouldNotLoad, st)
             | Inr ver \<Rightarrow>
            (case normalizeSteps uid 0 (elems (getProp obj ''steps'')) of
               Inl e \<Rightarrow> (Some CouldNotLoad, st)
             | Inr ss \<Rightarrow>
                 let normalized =
                       \<lparr>name = nm, version = ver,
                        createdAt = or_js (getProp obj ''createdAt'') (JStr now),
                        steps = ensureIndices ss\<rparr>
                 in (None,
                     st\<lparr>process := Some normalized, currentIndex := 0,
                        pendingPhotos := (case steps normalized of [] \<Rightarrow> [] | s # _ \<Rightarrow> photos s),
                        pendingTexts := (case steps normalized of [] \<Rightarrow> [] | s # _ \<Rightarrow> texts s),
                        textDraft := [], textImportant := False,
                        lastSnapshot := None, finalized := False\<rparr>)))))"

section \<open>The PDF export\<close>

text \<open>
  \<open>exportPDF\<close> draws into a jsPDF document. Lengths are points. The pager is modelled
  with real numbers, in exact arithmetic; the rounding of the doubles the program
  computes with is modelled for the image scale, in the last part of this section. The
  page size is what \<open>pdf.internal.pageSize\<close> returns, a parameter; \<open>a4\<close> is the portrait
  A4 page the program asks for.
\<close>

record geometry =
  pageW :: real
  pageH :: real

definition a4 :: geometry where
  "a4 = \<lparr>pageW = 595.28, pageH = 841.89\<rparr>"

definition margin :: real where
  "margin = 36"

definition contentW :: "geometry \<Rightarrow> real" where
  "contentW g = pageW g - margin * 2"

definition A6W :: real where
  "A6W = 297.64"

definition A6H :: real where
  "A6H = 420.94"

definition maxImgW :: "geometry \<Rightarrow> real" where
  "maxImgW g = min A6W (contentW g)"

definition maxImgH :: "geometry \<Rightarrow> real" where
  "maxImgH g = min A6H (pageH g - margin * 2)"

text \<open>
  The collaborators of the export: the browser's image decoder (\<open>None\<close> when the promise
  of \<open>loadImage\<close> is rejected, else the width and height of the image in pixels),
  \<open>pdf.addImage\<close>, which may throw on data it cannot embed, \<open>pdf.splitTextToSize\<close>, which
  measures with the font the document has at that moment, and the date's
  \<open>toLocaleString\<close>.
\<close>

record env =
  loadImage :: "string \<Rightarrow> (nat \<times> nat) option"
  addImageThrows :: "string \<Rightarrow> bool"
  splitTextToSize :: "bool \<Rightarrow> nat \<Rightarrow> string \<Rightarrow> real \<Rightarrow> string list"
  toLocaleString :: "json \<Rightarrow> string"

text \<open>
  The document's settings and the variable \<open>y\<close> of \<open>exportPDF\<close>. Font weight, font size
  and text colour are settings of the document: a call draws with the values last set,
  on whatever page. \<open>bold\<close> is the font style (\<open>"bold"\<close> or \<open>"normal"\<close>).
\<close>

record pdf =
  yPos :: real
  curPage :: nat
  numPages :: nat
  bold :: bool
  fontSize :: nat
  textColor :: "nat \<times> nat \<times> nat"

datatype halign = AlignLeft | AlignCenter | AlignRight

datatype call =
    TextCall string real real halign
  | ImageCall string real real real real
  | LineCall real real real real

text \<open>One call of a drawing function, with the page and the settings it is drawn with.\<close>

record drawn =
  call :: call
  onPage :: nat
  isBold :: bool
  atSize :: nat
  inColor :: "nat \<times> nat \<times> nat"

text \<open>
  The calls are grouped by the piece of the program that issues them: the title lines,
  the heading of step number \<open>s\<close> (counted from 0 in \<open>process.steps\<close>), photo \<open>p\<close> of step
  \<open>s\<close>, text \<open>i\<close> of step \<open>s\<close> (all its lines), the footer of a page. \<open>needed\<close> is the
  height the program asks room for before it draws the block (the reserve of a heading,
  \<open>d.h\<close> of a photo, \<open>blockHeight\<close> of a text) and \<open>topY\<close> the value of \<open>y\<close> when the
  drawing of the block starts.
\<close>

datatype blockKind =
    TitleBlock
  | HeadingBlock nat
  | ImageBlock nat nat
  | TextBlock nat nat
  | FooterBlock nat

record block =
  kind :: blockKind
  needed :: real
  topY :: real
  calls :: "drawn list"

definition stamp :: "pdf \<Rightarrow> call \<Rightarrow> drawn" where
  "stamp st c =
     \<lparr>call = c, onPage = curPage st, isBold = bold st, atSize = fontSize st,
      inColor = textColor st\<rparr>"

definition addPage :: "pdf \<Rightarrow> pdf" where
  \<comment> \<open>\<open>pdf.addPage(); y = margin\<close>: the new page is the last one and becomes the current one\<close>
  "addPage st = st\<lparr>numPages := numPages st + 1, curPage := numPages st + 1, yPos := margin\<rparr>"

definition spaceLeft :: "geometry \<Rightarrow> pdf \<Rightarrow> real" where
  "spaceLeft g st = pageH g - margin - yPos st"

definition ensureSpace :: "geometry \<Rightarrow> real \<Rightarrow> pdf \<Rightarrow> pdf" where
  "ensureSpace g n st = (if spaceLeft g st < n then addPage st else st)"

definition capBy :: "real \<Rightarrow> real \<Rightarrow> nat \<Rightarrow> real" where
  \<comment> \<open>\<open>Math.min(s, m / n)\<close> for a positive \<open>m\<close>: \<open>m / 0\<close> is \<open>Infinity\<close>\<close>
  "capBy s m n = (if n = 0 then s else min s (m / real n))"

definition scaleOf :: "geometry \<Rightarrow> nat \<Rightarrow> nat \<Rightarrow> real" where
  \<comment> \<open>\<open>Math.min(maxImgW / img.width, maxImgH / img.height, 1)\<close>\<close>
  "scaleOf g w h = capBy (capBy 1 (maxImgW g) w) (maxImgH g) h"

definition scaleDims :: "geometry \<Rightarrow> nat \<times> nat \<Rightarrow> real \<times> real" where
  \<comment> \<open>\<open>{ w: img.width * s, h: img.height * s }\<close> without rounding; \<open>scaleDimsD\<close> below
      is the same in doubles\<close>
  "scaleDims g img = (case img of (w, h) \<Rightarrow> (real w * scaleOf g w h, real h * scaleOf g w h))"

definition reserveOf :: "env \<Rightarrow> geometry \<Rightarrow> StepData \<Rightarrow> real" where
  \<comment> \<open>\<open>let reserve = 20; if (step.photos.length > 0) { try { ... reserve += d0.h + 12 }
      catch { reserve += 120 } } else { reserve += 40 }\<close>\<close>
  "reserveOf e g step =
     20 + (case photos step of
             [] \<Rightarrow> 40
           | p0 # _ \<Rightarrow>
               (case loadImage e p0 of
                  None \<Rightarrow> 120
                | Some img \<Rightarrow> snd (scaleDims g img) + 12))"

definition drawPhoto :: "env \<Rightarrow> geometry \<Rightarrow> nat \<Rightarrow> nat \<Rightarrow> string \<Rightarrow> pdf \<Rightarrow> block list \<times> pdf" where
  \<comment> \<open>the body of the loop over \<open>step.photos\<close>; the \<open>catch\<close> skips the photo, after
      \<open>ensureSpace\<close> when it is \<open>addImage\<close> that throws\<close>
  "drawPhoto e g s p dataUrl st =
     (case loadImage e dataUrl of
        None \<Rightarrow> ([], st)
      | Some img \<Rightarrow>
          let d = scaleDims g img;
              st1 = ensureSpace g (snd d) st
          in if addImageThrows e dataUrl then ([], st1)
             else ([\<lparr>kind = ImageBlock s p, needed = snd d, topY = yPos st1,
                      calls = [stamp st1 (ImageCall dataUrl margin (yPos st1) (fst d) (snd d))]\<rparr>],
                   st1\<lparr>yPos := yPos st1 + (snd d + 12)\<rparr>))"

fun drawPhotos :: "env \<Rightarrow> geometry \<Rightarrow> nat \<Rightarrow> nat \<Rightarrow> string list \<Rightarrow> pdf \<Rightarrow> block list \<times> pdf" where
  "drawPhotos e g s p [] st = ([], st)"
| "drawPhotos e g s p (u # us) st =
     (case drawPhoto e g s p u st of
        (bs, st1) \<Rightarrow>
          (case drawPhotos e g s (Suc p) us st1 of
             (bs', st2) \<Rightarrow> (bs @ bs', st2)))"

fun drawLines :: "string list \<Rightarrow> pdf \<Rightarrow> drawn list \<times> pdf" where
  \<comment> \<open>\<open>for (li ...) { pdf.text(lines[li], margin, y); y += 14; }\<close>\<close>
  "drawLines [] st = ([], st)"
| "drawLines (l # ls) st =
     (case drawLines ls (st\<lparr>yPos := yPos st + 14\<rparr>) of
        (ds, st1) \<Rightarrow> (stamp st (TextCall l margin (yPos st) AlignLeft) # ds, st1))"

definition labelOf :: "int \<Rightarrow> nat \<Rightarrow> string" where
  \<comment> \<open>\<open>`${step.index}.${i + 1} `\<close>\<close>
  "labelOf idx i = showInt idx @ ''.'' @ showNat (i + 1) @ '' ''"

definition drawText :: "env \<Rightarrow> geometry \<Rightarrow> nat \<Rightarrow> int \<Rightarrow> nat \<Rightarrow> TextItem \<Rightarrow> pdf \<Rightarrow> block list \<times> pdf" where
  \<comment> \<open>the body of the loop over \<open>step.texts\<close>\<close>
  "drawText e g s idx i t st =
     (let full = labelOf idx i @ content t;
          lines = splitTextToSize e (bold st) (fontSize st) full (contentW g);
          blockHeight = real (length lines) * 14 + 6;
          st1 = ensureSpace g blockHeight st;
          st2 = (if important t then st1\<lparr>textColor := (200, 0, 0), bold := True\<rparr>
                 else st1\<lparr>textColor := (0, 0, 0), bold := False\<rparr>)
      in case drawLines lines st2 of
           (ds, st3) \<Rightarrow>
             ([\<lparr>kind = TextBlock s i, needed = blockHeight, topY = yPos st2, calls = ds\<rparr>],
              st3\<lparr>yPos := yPos st3 + 6\<rparr>))"

fun drawTexts :: "env \<Rightarrow> geometry \<Rightarrow> nat \<Rightarrow> int \<Rightarrow> nat \<Rightarrow> TextItem list \<Rightarrow> pdf \<Rightarrow> block list \<times> pdf" where
  "drawTexts e g s idx i [] st = ([], st)"
| "drawTexts e g s idx i (t # ts) st =
     (case drawText e g s idx i t st of
        (bs, st1) \<Rightarrow>
          (case drawTexts e g s idx (Suc i) ts st1 of
             (bs', st2) \<Rightarrow> (bs @ bs', st2)))"

definition drawStep :: "env \<Rightarrow> geometry \<Rightarrow> nat \<Rightarrow> StepData \<Rightarrow> pdf \<Rightarrow> block list \<times> pdf" where
  \<comment> \<open>the body of the loop over \<open>process.steps\<close>\<close>
  "drawStep e g s step st =
     (if photos step = [] \<and> texts step = [] then ([], st)
      else
        let reserve = reserveOf e g step;
            st1 = (if spaceLeft g st < reserve then addPage st else st);
            st2 = st1\<lparr>bold := True, fontSize := 13\<rparr>;
            heading = \<lparr>kind = HeadingBlock s, needed = reserve, topY = yPos st2,
                       calls = [stamp st2 (TextCall (''Schritt '' @ showInt (index step))
                                            margin (yPos st2) AlignLeft)]\<rparr>;
            st3 = st2\<lparr>yPos := yPos st2 + 20\<rparr>
        in case drawPhotos e g s 0 (photos step) st3 of
             (imgs, st4) \<Rightarrow>
               (case drawTexts e g s (index step) 0 (texts step)
                       (st4\<lparr>bold := False, fontSize := 11\<rparr>) of
                  (txts, st5) \<Rightarrow> (heading # imgs @ txts, st5\<lparr>yPos := yPos st5 + 6\<rparr>)))"

fun drawSteps :: "env \<Rightarrow> geometry \<Rightarrow> nat \<Rightarrow> StepData list \<Rightarrow> pdf \<Rightarrow> block list \<times> pdf" where
  "drawSteps e g s [] st = ([], st)"
| "drawSteps e g s (step # rest) st =
     (case drawStep e g s step st of
        (bs, st1) \<Rightarrow>
          (case drawSteps e g (Suc s) rest st1 of
             (bs', st2) \<Rightarrow> (bs @ bs', st2)))"

definition newPdf :: pdf where
  \<comment> \<open>a new document: one page, Helvetica normal at 16 pt, black text\<close>
  "newPdf = \<lparr>yPos = margin, curPage = 1, numPages = 1, bold = False, fontSize = 16,
             textColor = (0, 0, 0)\<rparr>"

definition drawTitle :: "env \<Rightarrow> geometry \<Rightarrow> ProcessData \<Rightarrow> pdf \<Rightarrow> block list \<times> pdf" where
  \<comment> \<open>the name, the line with date and version, and the rule under them\<close>
  "drawTitle e g p st =
     (let st1 = st\<lparr>bold := True, fontSize := 16\<rparr>;
          c1 = stamp st1 (TextCall (name p) margin (yPos st1) AlignLeft);
          st2 = st1\<lparr>yPos := yPos st1 + 18, bold := False, fontSize := 10\<rparr>;
          c2 = stamp st2 (TextCall (''Erstellt am: '' @ toLocaleString e (createdAt p)
                                     @ ''   |   Version: '' @ templateText (version p))
                            margin (yPos st2) AlignLeft);
          st3 = st2\<lparr>yPos := yPos st2 + 14\<rparr>;
          c3 = stamp st3 (LineCall margin (yPos st3) (pageW g - margin) (yPos st3));
          st4 = st3\<lparr>yPos := yPos st3 + 10\<rparr>
      in ([\<lparr>kind = TitleBlock, needed = 0, topY = yPos st1, calls = [c1, c2, c3]\<rparr>], st4))"

definition drawFooter :: "env \<Rightarrow> geometry \<Rightarrow> ProcessData \<Rightarrow> nat \<Rightarrow> nat \<Rightarrow> pdf \<Rightarrow> block list \<times> pdf" where
  \<comment> \<open>the body of the loop \<open>for (let p = 1; p <= total; p++)\<close>\<close>
  "drawFooter e g p tot n st =
     (let st1 = st\<lparr>curPage := n, bold := False, fontSize := 9\<rparr>;
          yF = pageH g - 16
      in ([\<lparr>kind = FooterBlock n, needed = 0, topY = yF,
             calls =
               [stamp st1 (TextCall (''Erstellt am: '' @ toLocaleString e (createdAt p))
                             margin yF AlignLeft),
                stamp st1 (TextCall (''Version: '' @ templateText (version p))
                             (pageW g / 2) yF AlignCenter),
                stamp st1 (TextCall (''Seite '' @ showNat n @ '' von '' @ showNat tot)
                             (pageW g - margin) yF AlignRight)]\<rparr>],
          st1))"

fun drawFooters :: "env \<Rightarrow> geometry \<Rightarrow> ProcessData \<Rightarrow> nat \<Rightarrow> nat list \<Rightarrow> pdf \<Rightarrow> block list \<times> pdf" where
  "drawFooters e g p tot [] st = ([], st)"
| "drawFooters e g p tot (n # ns) st =
     (case drawFooter e g p tot n st of
        (bs, st1) \<Rightarrow>
          (case drawFooters e g p tot ns st1 of
             (bs', st2) \<Rightarrow> (bs @ bs', st2)))"

definition renderPDF :: "env \<Rightarrow> geometry \<Rightarrow> ProcessData \<Rightarrow> block list" where
  \<comment> \<open>\<open>exportPDF\<close> after its two guards, for a record whose creation time and version
      convert to a string: title, steps, then the footers of pages \<open>1 .. total\<close>\<close>
  "renderPDF e g p =
     (case drawTitle e g p newPdf of
        (tb, st1) \<Rightarrow>
          (case drawSteps e g 0 (steps p) st1 of
             (sb, st2) \<Rightarrow>
               (case drawFooters e g p (numPages st2) [1 ..< Suc (numPages st2)] st2 of
                  (fb, st3) \<Rightarrow> tb @ sb @ fb)))"

definition exportPDF :: "env \<Rightarrow> geometry \<Rightarrow> app \<Rightarrow> js_error + alert option \<times> block list" where
  \<comment> \<open>nothing without a process; an alert and nothing drawn before finalization; no
      document when \<open>new Date(process.createdAt)\<close> or \<open>`${process.version}`\<close> in the title
      throws, which they do on a value whose conversion to a string throws\<close>
  "exportPDF e g st =
     (case process st of
        None \<Rightarrow> Inr (None, [])
      | Some p \<Rightarrow>
          if \<not> finalized st then Inr (Some FinalizeFirst, [])
          else
            (case String_js (createdAt p) of
               Inl err \<Rightarrow> Inl err
             | Inr c \<Rightarrow>
                 (case String_js (version p) of
                    Inl err \<Rightarrow> Inl err
                  | Inr v \<Rightarrow> Inr (None, renderPDF e g p))))"

subsection \<open>The image scale in the program's doubles\<close>












section \<open>What the properties speak about\<close>




text \<open>
  Pages only grow: a piece of the export that starts on the last page ends on the last
  page, and draws on no page before the one it started on.
\<close>

definition pagesGrow :: "pdf \<Rightarrow> block list \<times> pdf \<Rightarrow> bool" where
  "pagesGrow st r \<longleftrightarrow>
     curPage (snd r) = numPages (snd r) \<and> curPage st \<le> curPage (snd r) \<and>
     (\<forall>b \<in> set (fst r). \<forall>d \<in> set (calls b).
        curPage st \<le> onPage d \<and> onPage d \<le> curPage (snd r))"

text \<open>
  The block sequence as the specification describes it, a function of the record: for
  each step with content a heading, then a block for each photo that can be decoded and
  embedded, in the order of \<open>photos\<close>, then a block for each text, in the order of
  \<open>texts\<close>. A block is given by its kind and the strings it shows: the heading's text,
  the photo's data URL, the wrapped lines of a text's label and content. (The lines of a
  text are measured in the font weight the text before it has left behind.)
\<close>

definition drawable :: "env \<Rightarrow> string \<Rightarrow> bool" where
  "drawable e u \<longleftrightarrow> loadImage e u \<noteq> None \<and> \<not> addImageThrows e u"

definition payload :: "call \<Rightarrow> string" where
  "payload c =
     (case c of TextCall l x y a \<Rightarrow> l | ImageCall u x y w h \<Rightarrow> u | LineCall x y x' y' \<Rightarrow> [])"

definition outline :: "block \<Rightarrow> blockKind \<times> string list" where
  "outline b = (kind b, map (\<lambda>d. payload (call d)) (calls b))"

fun imageBlocks :: "env \<Rightarrow> nat \<Rightarrow> nat \<Rightarrow> string list \<Rightarrow> (blockKind \<times> string list) list" where
  "imageBlocks e s k [] = []"
| "imageBlocks e s k (u # us) =
     (if drawable e u then [(ImageBlock s k, [u])] else []) @ imageBlocks e s (Suc k) us"

fun textBlocks :: "env \<Rightarrow> geometry \<Rightarrow> nat \<Rightarrow> int \<Rightarrow> nat \<Rightarrow> bool \<Rightarrow> TextItem list \<Rightarrow> (blockKind \<times> string list) list" where
  "textBlocks e g s idx i b [] = []"
| "textBlocks e g s idx i b (t # ts) =
     (TextBlock s i, splitTextToSize e b 11 (labelOf idx i @ content t) (contentW g))
     # textBlocks e g s idx (Suc i) (important t) ts"

definition stepBlocks :: "env \<Rightarrow> geometry \<Rightarrow> nat \<Rightarrow> StepData \<Rightarrow> (blockKind \<times> string list) list" where
  "stepBlocks e g s step =
     (if photos step = [] \<and> texts step = [] then []
      else (HeadingBlock s, [''Schritt '' @ showInt (index step)])
           # imageBlocks e s 0 (photos step)
           @ textBlocks e g s (index step) 0 False (texts step))"

fun stepsBlocks :: "env \<Rightarrow> geometry \<Rightarrow> nat \<Rightarrow> StepData list \<Rightarrow> (blockKind \<times> string list) list" where
  "stepsBlocks e g s [] = []"
| "stepsBlocks e g s (step # rest) = stepBlocks e g s step @ stepsBlocks e g (Suc s) rest"

text \<open>
  A value is plain when no object in it has a key \<open>toString\<close>; on such a value no
  conversion to a string throws.
\<close>

fun plain :: "json \<Rightarrow> bool" where
  "plain (JArr xs) = list_all plain xs"
| "plain (JObj kvs) = (''toString'' \<notin> set (map fst kvs) \<and> list_all plain (map snd kvs))"
| "plain v = True"

section \<open>Example inputs\<close>

text \<open>
  A saved file whose two steps are both empty, and the state of the program after it has
  loaded that file.
\<close>

definition constUid :: "nat \<Rightarrow> nat \<Rightarrow> string" where
  "constUid i j = ''u''"

definition twoEmptySteps :: json where
  "twoEmptySteps = JObj [(''name'', JStr ''P''), (''steps'', JArr [JObj [], JObj []])]"

definition loadedTwoEmpty :: app where
  "loadedTwoEmpty = snd (loadProcess ''T'' constUid (Payload twoEmptySteps) initialApp)"

text \<open>
  A session in the editor: a new process, one photo and one text in step 1, the step
  finished, then back to step 1 and photo and text removed again.
\<close>

definition typed :: app where
  "typed = addText ''t1'' ''c'' (onPhotoUpload [''img''] (startNew ''P'' ''1.0'' ''T'' initialApp))"


definition emptiedAgain :: app where
  "emptiedAgain =
     (case finishStep typed of
        Inr s1 \<Rightarrow>
          (case backStep (syncEditor s1) of
             Inr s2 \<Rightarrow> removeText ''t1'' (removePhotoAt 0 (syncEditor s2))
           | Inl e \<Rightarrow> initialApp)
      | Inl e \<Rightarrow> initialApp)"

text \<open>
  A file with a name whose array of steps holds \<open>null\<close>, and what the program answers
  when it is to load that file in its initial state.
\<close>

definition nullStepPayload :: json where
  "nullStepPayload = JObj [(''name'', JStr ''P''), (''steps'', JArr [JNull])]"

definition nullStepLoad :: "alert option \<times> app" where
  "nullStepLoad = loadProcess ''T'' constUid (Payload nullStepPayload) initialApp"

text \<open>A file with a name in which a photo is an object with a key \<open>toString\<close>.\<close>

definition toStringPayload :: json where
  "toStringPayload =
     JObj [(''name'', JStr ''P''),
           (''steps'', JArr [JObj [(''photos'', JArr [JObj [(''toString'', JNum 1)]])]])]"

text \<open>A file whose name is the empty string, and one whose name is the empty array.\<close>

definition emptyNamePayload :: json where
  "emptyNamePayload = JObj [(''name'', JStr []), (''steps'', JArr [])]"





text \<open>
  A file with a malformed version, no creation time, and one step without index whose
  one text has neither content nor importance.
\<close>

definition sparsePayload :: json where
  "sparsePayload =
     JObj [(''name'', JStr ''P''), (''version'', JStr ''v2''),
           (''steps'', JArr [JObj [(''texts'', JArr [JObj [(''id'', JStr ''a'')]])]])]"




text \<open>
  Collaborators for the examples: the photo \<open>img\<close> decodes to 1000 by 500 pixels, the
  photo \<open>tall\<close> to 500 by 1000 pixels, no other one decodes, every text fits on one
  line.
\<close>

definition sampleEnv :: env where
  "sampleEnv =
     \<lparr>loadImage = (\<lambda>u. if u = ''img'' then Some (1000, 500)
                        else if u = ''tall'' then Some (500, 1000) else None),
      addImageThrows = (\<lambda>u. False),
      splitTextToSize = (\<lambda>b n s w. [s]),
      toLocaleString = (\<lambda>j. ''D'')\<rparr>"

text \<open>The one step of \<open>sampleProcess\<close>, and a document whose first page is nearly full.\<close>

definition sampleStep :: StepData where
  "sampleStep =
     \<lparr>index = 1, photos = [''img''],
      texts = [\<lparr>id' = ''a'', content = ''c'', important = True\<rparr>], done' = Some True\<rparr>"

definition lateState :: pdf where
  "lateState = newPdf\<lparr>yPos := 700\<rparr>"


text \<open>A finalized process of two steps, each with one important text.\<close>

definition redProcess :: ProcessData where
  "redProcess =
     \<lparr>name = ''P'', version = JStr ''1.1'', createdAt = JStr ''T'',
      steps = [\<lparr>index = 1, photos = [],
                texts = [\<lparr>id' = ''a'', content = ''A'', important = True\<rparr>],
                done' = Some True\<rparr>,
               \<lparr>index = 2, photos = [],
                texts = [\<lparr>id' = ''b'', content = ''B'', important = True\<rparr>],
                done' = None\<rparr>]\<rparr>"

section \<open>Properties: versions\<close>

lemma not_digit_dot: "\<not> isDigit (CHR ''.'')"
  by (simp add: isDigit_def)

lemma digitChar_digit: "d < 10 \<Longrightarrow> isDigit (digitChar d)"
  by (simp add: isDigit_def digitChar_def)

lemma digitVal_digitChar: "d < 10 \<Longrightarrow> digitVal (digitChar d) = d"
  by (simp add: digitVal_def digitChar_def)

lemma digitChar_numeral:
  "digitChar 0 = CHR ''0''" "digitChar 1 = CHR ''1''" "digitChar (Suc 0) = CHR ''1''"
  "digitChar 2 = CHR ''2''" "digitChar 3 = CHR ''3''" "digitChar 4 = CHR ''4''"
  "digitChar 5 = CHR ''5''" "digitChar 6 = CHR ''6''" "digitChar 7 = CHR ''7''"
  "digitChar 8 = CHR ''8''" "digitChar 9 = CHR ''9''"
  by code_simp+

lemma showNat_nonempty: "showNat n \<noteq> []"
  by (subst showNat.simps) simp

lemma showNat_digits: "list_all isDigit (showNat n)"
proof (induction n rule: showNat.induct)
  case (1 n)
  show ?case
  proof (cases "n < 10")
    case True
    then show ?thesis by (subst showNat.simps) (simp add: digitChar_digit)
  next
    case False
    with 1 show ?thesis by (subst showNat.simps) (simp add: digitChar_digit)
  qed
qed

lemma parseInt10_snoc: "parseInt10 (s @ [c]) = 10 * parseInt10 s + digitVal c"
  by (simp add: parseInt10_def)

text \<open>Reading back the decimal rendering of a number gives the number.\<close>

lemma parseInt10_showNat: "parseInt10 (showNat n) = n"
proof (induction n rule: showNat.induct)
  case (1 n)
  show ?case
  proof (cases "n < 10")
    case True
    then show ?thesis by (subst showNat.simps) (simp add: parseInt10_def digitVal_digitChar)
  next
    case False
    with 1 have "parseInt10 (showNat (n div 10)) = n div 10" by simp
    with False show ?thesis
      by (subst showNat.simps) (simp add: parseInt10_snoc digitVal_digitChar)
  qed
qed

text \<open>The matcher decides the pattern, and its groups are the two runs of digits.\<close>

lemma matchVersion_Some_iff:
  "matchVersion v = Some (a, b) \<longleftrightarrow>
     v = a @ CHR ''.'' # b \<and> a \<noteq> [] \<and> b \<noteq> [] \<and> list_all isDigit a \<and> list_all isDigit b"
proof
  assume m: "matchVersion v = Some (a, b)"
  obtain c r where d: "dropWhile isDigit v = c # r"
    using m by (cases "dropWhile isDigit v") (auto simp: matchVersion_def)
  from m d have c: "c = CHR ''.''" and a: "a = takeWhile isDigit v" and b: "b = r"
    and ne: "a \<noteq> []" "b \<noteq> []" and db: "list_all isDigit b"
    by (auto simp: matchVersion_def Let_def split: if_splits)
  have "v = takeWhile isDigit v @ dropWhile isDigit v" by simp
  with d a b c have "v = a @ CHR ''.'' # b" by simp
  moreover have "list_all isDigit a"
    unfolding a by (simp add: list_all_iff) (meson set_takeWhileD)
  ultimately show "v = a @ CHR ''.'' # b \<and> a \<noteq> [] \<and> b \<noteq> [] \<and> list_all isDigit a \<and> list_all isDigit b"
    using ne db by simp
next
  assume h: "v = a @ CHR ''.'' # b \<and> a \<noteq> [] \<and> b \<noteq> [] \<and> list_all isDigit a \<and> list_all isDigit b"
  then have all: "\<forall>x\<in>set a. isDigit x" by (simp add: list_all_iff)
  from h all have t: "takeWhile isDigit v = a"
    by (simp add: not_digit_dot)
  from h all have d: "dropWhile isDigit v = CHR ''.'' # b"
    by (simp add: not_digit_dot)
  from h t d show "matchVersion v = Some (a, b)"
    by (simp add: matchVersion_def)
qed

lemma versionForm_iff: "versionForm v \<longleftrightarrow> matchVersion v \<noteq> None"
proof -
  have "matchVersion v \<noteq> None \<longleftrightarrow> (\<exists>a b. matchVersion v = Some (a, b))" by auto
  then show ?thesis by (simp add: versionForm_def matchVersion_Some_iff)
qed

lemma not_versionForm_examples:
  "\<not> versionForm []" "\<not> versionForm ''abc''" "\<not> versionForm ''1.2.3''"
  "\<not> versionForm ''v1.0''"
  by (simp_all add: versionForm_iff matchVersion_def isDigit_def)

lemma matchVersion_canonical:
  "matchVersion (showNat major @ CHR ''.'' # showNat minor) = Some (showNat major, showNat minor)"
  by (simp add: matchVersion_Some_iff showNat_nonempty showNat_digits)

lemma parseVersion_canonical:
  "parseVersion (showNat major @ CHR ''.'' # showNat minor) = (orElse major 1, minor)"
  by (simp add: parseVersion_def matchVersion_canonical parseInt10_showNat orElse_def)

lemma bumpVersion_canonical:
  "bumpVersion (showNat major @ ''.'' @ showNat minor) =
     (if minor < 9 then showNat (orElse major 1) @ ''.'' @ showNat (minor + 1)
      else showNat (orElse major 1 + 1) @ ''.0'')"
  by (simp add: bumpVersion_def parseVersion_canonical)

text \<open>
  From major version 1 on, a version written in decimal is bumped as a version should
  be: the minor number goes up by one, and after 9 the major number does and the minor
  number starts again at 0.
\<close>

lemma bumpVersion_positive_major:
  assumes "0 < major" "minor \<le> 9"
  shows "bumpVersion (showNat major @ ''.'' @ showNat minor) =
     (if minor < 9 then showNat major @ ''.'' @ showNat (minor + 1)
      else showNat (major + 1) @ ''.0'')"
  using assms bumpVersion_canonical [of major minor] by (simp add: orElse_def)

text \<open>
  A major version 0 is read as 1: \<open>parseInt(m[1], 10) || 1\<close> replaces the number 0,
  which is falsy, by 1.
\<close>

lemma bumpVersion_major_zero:
  "bumpVersion (showNat 0 @ ''.'' @ showNat minor) =
     (if minor < 9 then showNat 1 @ ''.'' @ showNat (minor + 1) else showNat 2 @ ''.0'')"
  using bumpVersion_canonical [of 0 minor] by (simp add: orElse_def numeral_2_eq_2)

lemma bumpVersion_malformed: "\<not> versionForm v \<Longrightarrow> bumpVersion v = ''1.1''"
proof -
  assume "\<not> versionForm v"
  then have "matchVersion v = None"
    by (cases "matchVersion v") (auto simp: versionForm_iff)
  then show ?thesis
    by (simp add: bumpVersion_def parseVersion_def showNat.simps digitChar_numeral)
qed

text \<open>
  The older \<open>bumpVersion\<close> bumps every version written in decimal as a version should
  be, major version 0 included.
\<close>

lemma splitDot_nodot: "CHR ''.'' \<notin> set a \<Longrightarrow> splitDot a = [a]"
  by (induction a) auto

lemma splitDot_dot:
  "CHR ''.'' \<notin> set a \<Longrightarrow> splitDot (a @ CHR ''.'' # b) = a # splitDot b"
  by (induction a) auto

lemma digits_nodot: "list_all isDigit a \<Longrightarrow> CHR ''.'' \<notin> set a"
  by (auto simp: list_all_iff isDigit_def)

lemma isDigit_plain:
  "isDigit c \<Longrightarrow> \<not> isSpace c \<and> c \<noteq> CHR ''-'' \<and> c \<noteq> CHR ''+'' \<and> c \<noteq> CHR ''x'' \<and> c \<noteq> CHR ''X''"
  by (auto simp: isDigit_def isSpace_def)

lemma parseInt_digits:
  assumes d: "list_all isDigit a" and ne: "a \<noteq> []"
  shows "parseInt a = Some (int (parseInt10 a))"
proof -
  obtain c r where a: "a = c # r" using ne by (cases a) auto
  with d have c: "isDigit c" and r: "list_all isDigit r" by auto
  note pc = isDigit_plain [OF c]
  have s: "dropWhile isSpace a = a" using pc by (simp add: a)
  have nh: "\<not> (case a of x # y # z \<Rightarrow> x = CHR ''0'' \<and> (y = CHR ''x'' \<or> y = CHR ''X'') | _ \<Rightarrow> False)"
  proof (cases r)
    case Nil
    then show ?thesis by (simp add: a)
  next
    case (Cons y z)
    with r have "isDigit y" by simp
    from isDigit_plain [OF this] show ?thesis by (simp add: a Cons)
  qed
  have t: "takeWhile isDigit a = a" using d by (simp add: list_all_iff)
  have s1: "(case a of c # r \<Rightarrow> if c = CHR ''-'' \<or> c = CHR ''+'' then r else a | [] \<Rightarrow> a) = a"
    using pc by (simp add: a)
  have ng: "\<not> (case a of c # r \<Rightarrow> c = CHR ''-'' | [] \<Rightarrow> False)"
    using pc by (simp add: a)
  show ?thesis
    unfolding parseInt_def Let_def s s1 t using nh ng ne by simp
qed

lemma parseInt_showNat: "parseInt (showNat n) = Some (int n)"
  by (simp add: parseInt_digits showNat_digits showNat_nonempty parseInt10_showNat)

lemma showInt_nat: "showInt (int n) = showNat n"
  by (simp add: showInt_def)

lemma bumpVersion_App_decimal:
  "bumpVersion_App (showNat major @ ''.'' @ showNat minor) =
     (if minor < 9 then showNat major @ ''.'' @ showNat (minor + 1)
      else showNat (major + 1) @ ''.0'')"
proof -
  have sp: "splitDot (showNat major @ CHR ''.'' # showNat minor) = [showNat major, showNat minor]"
    by (simp add: splitDot_dot splitDot_nodot digits_nodot showNat_digits)
  have i1: "int minor + 1 = int (minor + 1)" and i2: "int major + 1 = int (major + 1)" by simp_all
  show ?thesis
    by (simp add: bumpVersion_App_def sp parseInt_showNat showNum_def i1 i2 showInt_nat
        del: of_nat_add of_nat_Suc)
qed

lemma bumpVersion_App_zero: "bumpVersion_App ''0.3'' = ''0.4'' \<and> bumpVersion_App ''0.9'' = ''1.0''"
  by code_simp

text \<open>
  Claim C5. \<open>bumpVersion\<close> on a version \<open>major.minor\<close> with \<open>minor\<close> at most 9 gives
  \<open>major.(minor + 1)\<close>, and \<open>(major + 1).0\<close> when \<open>minor\<close> is 9. The program does so for
  \<open>1.3\<close> and \<open>1.9\<close>, and for every major version from 1 on
  (\<open>bumpVersion_positive_major\<close>). With major version 0 it does not: \<open>0.3\<close> becomes
  \<open>1.4\<close> and \<open>0.9\<close> becomes \<open>2.0\<close>, where the claim has \<open>0.4\<close> and \<open>1.0\<close>, and where
  the older function gives \<open>0.4\<close> and \<open>1.0\<close> (\<open>bumpVersion_App_zero\<close>).
\<close>

theorem bumpVersion_zero_major_C5:
  "bumpVersion ''0.3'' = ''1.4'' \<and> bumpVersion ''0.9'' = ''2.0'' \<and>
   bumpVersion ''1.3'' = ''1.4'' \<and> bumpVersion ''1.9'' = ''2.0''"
  by code_simp

section \<open>Properties: finalization\<close>

lemma finishProcess_first_bump:
  assumes "process st = Some p" "version p = JStr v" "lastSnapshot st = None"
  shows "\<exists>st'. finishProcess st = Inr st' \<and>
    map_option version (process st') = Some (JStr (bumpVersion v))"
  using assms by (simp add: finishProcess_def Let_def)

text \<open>
  Claim C10. A string \<open>v\<close> that does not match \<open>^(\d+)\.(\d+)$\<close> is parsed as major 1,
  minor 0, so \<open>bumpVersion v\<close> is \<open>1.1\<close>. A version the user has typed is in a process
  that was never finalized (\<open>startNew\<close> clears the last snapshot, and only \<open>finishProcess\<close>
  sets one): finalizing it succeeds and leaves version \<open>1.1\<close>.
\<close>

theorem malformed_version_C10:
  "\<not> versionForm v \<Longrightarrow>
     parseVersion v = (1, 0) \<and> bumpVersion v = ''1.1'' \<and>
     (process st = Some p \<and> version p = JStr v \<and> lastSnapshot st = None \<longrightarrow>
        (\<exists>st'. finishProcess st = Inr st' \<and>
               map_option version (process st') = Some (JStr ''1.1'')))"
proof -
  assume nv: "\<not> versionForm v"
  then have m: "matchVersion v = None"
    by (cases "matchVersion v") (auto simp: versionForm_iff)
  have b: "bumpVersion v = ''1.1''" using nv by (rule bumpVersion_malformed)
  show ?thesis using m b finishProcess_first_bump [of st p v]
    by (auto simp: parseVersion_def)
qed

theorem malformed_version_C10_witness:
  "\<not> versionForm ''v1.0'' \<and> parseVersion ''v1.0'' = (1, 0) \<and> bumpVersion ''v1.0'' = ''1.1'' \<and>
   (\<exists>st'. finishProcess (startNew ''P'' ''v1.0'' ''T'' initialApp) = Inr st' \<and>
          map_option version (process st') = Some (JStr ''1.1''))"
proof -
  have nv: "\<not> versionForm ''v1.0''" by (rule not_versionForm_examples)
  let ?st = "startNew ''P'' ''v1.0'' ''T'' initialApp"
  let ?p = "\<lparr>name = ''P'', version = JStr ''v1.0'', createdAt = JStr ''T'',
      steps = [\<lparr>index = 1, photos = [], texts = [], done' = None\<rparr>]\<rparr>"
  have p: "process ?st = Some ?p" and l: "lastSnapshot ?st = None"
    by (simp_all add: startNew_def initialApp_def)
  from malformed_version_C10 [OF nv, of ?st ?p] p l nv
  show ?thesis by simp
qed

lemma ensureIndices_length [simp]: "length (ensureIndices ss) = length ss"
  by (simp add: ensureIndices_def)

lemma ensureIndices_nth:
  "i < length ss \<Longrightarrow> ensureIndices ss ! i = (ss ! i)\<lparr>index := int i + 1\<rparr>"
  by (simp add: ensureIndices_def nth_enumerate_eq)

lemma ensureIndices_idem: "ensureIndices (ensureIndices ss) = ensureIndices ss"
  by (rule nth_equalityI) (simp_all add: ensureIndices_nth)

lemma ensureIndices_photos:
  "i < length ss \<Longrightarrow> photos (ensureIndices ss ! i) = photos (ss ! i)"
  by (simp add: ensureIndices_nth)

lemma takeBuffers_syncEditor:
  "process st = Some p \<Longrightarrow> takeBuffers (syncEditor st) (steps p) = steps p"
  by (simp add: takeBuffers_def syncEditor_def)

text \<open>The version after finalization: bumped exactly when the snapshot differs.\<close>

lemma finishProcess_version:
  assumes "process st = Some p" "version p = JStr v"
  shows "\<exists>st'. finishProcess st = Inr st' \<and>
     map_option version (process st') =
       Some (JStr (if lastSnapshot st =
                      Some (snapshotOf (p\<lparr>steps := ensureIndices (dropLastEmpty (takeBuffers st (steps p)))\<rparr>))
                   then v else bumpVersion v))"
  using assms by (auto simp: finishProcess_def Let_def)

lemma snapshotOf_version: "snapshotOf (p\<lparr>version := x\<rparr>) = snapshotOf p"
  by (simp add: snapshotOf_def)

text \<open>
  Finalizing again, after the editor has reloaded its buffers and nothing was edited,
  changes nothing, provided the first call left no empty last step.
\<close>

lemma finishProcess_idempotent:
  assumes f: "finishProcess st = Inr st1"
    and p1: "process st1 = Some p1"
    and keep: "dropLastEmpty (steps p1) = steps p1"
  shows "finishProcess (syncEditor st1) = Inr (syncEditor st1)"
proof -
  from f p1 obtain p where p: "process st = Some p"
    by (cases "process st") (auto simp: finishProcess_def)
  define draft where "draft = p\<lparr>steps := ensureIndices (dropLastEmpty (takeBuffers st (steps p)))\<rparr>"
  from f p p1 have s1: "steps p1 = steps draft" and l1: "lastSnapshot st1 = Some (snapshotOf draft)"
    and rest: "name p1 = name draft" "createdAt p1 = createdAt draft"
    by (auto simp: finishProcess_def Let_def draft_def split: if_splits json.splits)
  have e: "ensureIndices (steps p1) = steps p1"
    by (simp add: s1 draft_def ensureIndices_idem)
  have sn: "snapshotOf p1 = snapshotOf draft"
    using s1 rest by (simp add: snapshotOf_def toJSON_def)
  let ?st = "syncEditor st1"
  have ps: "process ?st = Some p1" and ls: "lastSnapshot ?st = Some (snapshotOf draft)"
    and fs: "finalized ?st = finalized st1"
    using p1 l1 by (auto simp: syncEditor_def)
  have fin: "finalized st1"
    using f p by (auto simp: finishProcess_def Let_def split: if_splits json.splits)
  have tb: "takeBuffers ?st (steps p1) = steps p1"
    using p1 by (rule takeBuffers_syncEditor)
  have pp: "p1\<lparr>steps := steps p1\<rparr> = p1" by simp
  show ?thesis
    using ps ls fs fin by (simp add: finishProcess_def tb keep e sn pp)
qed


lemma loadedTwoEmpty_eq:
  "loadedTwoEmpty =
     \<lparr>process = Some \<lparr>name = ''P'', version = JStr ''1.0'', createdAt = JStr ''T'',
        steps = [\<lparr>index = 1, photos = [], texts = [], done' = Some False\<rparr>,
                 \<lparr>index = 2, photos = [], texts = [], done' = Some False\<rparr>]\<rparr>,
      currentIndex = 0, pendingPhotos = [], pendingTexts = [], textDraft = [],
      textImportant = False, lastSnapshot = None, finalized = False\<rparr>"
  by (simp add: loadedTwoEmpty_def twoEmptySteps_def loadProcess_def initialApp_def
      truthy_u_def isArray_def elems_def normalizeStep_def String_u_def normalizeVersion_def
      matchVersion_def isDigit_def or_js_def ensureIndices_def)

lemma bump_10: "bumpVersion ''1.0'' = ''1.1''" by code_simp
lemma bump_11: "bumpVersion ''1.1'' = ''1.2''" by code_simp

text \<open>
  The same happens in the editor alone: after the session of \<open>emptiedAgain\<close> the process
  ends in two empty steps, and two finalizations in a row bump the version twice.
\<close>

lemma typed_eq:
  "typed =
     \<lparr>process = Some \<lparr>name = ''P'', version = JStr ''1.0'', createdAt = JStr ''T'',
        steps = [\<lparr>index = 1, photos = [], texts = [], done' = None\<rparr>]\<rparr>,
      currentIndex = 0, pendingPhotos = [''img''],
      pendingTexts = [\<lparr>id' = ''t1'', content = ''c'', important = False\<rparr>],
      textDraft = [], textImportant = False, lastSnapshot = None, finalized = False\<rparr>"
  by (simp add: typed_def addText_def onPhotoUpload_def startNew_def initialApp_def)

lemma emptiedAgain_eq:
  "emptiedAgain =
     \<lparr>process = Some \<lparr>name = ''P'', version = JStr ''1.0'', createdAt = JStr ''T'',
        steps = [\<lparr>index = 1, photos = [''img''],
                  texts = [\<lparr>id' = ''t1'', content = ''c'', important = False\<rparr>],
                  done' = Some True\<rparr>,
                 \<lparr>index = 2, photos = [], texts = [], done' = None\<rparr>]\<rparr>,
      currentIndex = 0, pendingPhotos = [], pendingTexts = [], textDraft = [],
      textImportant = False, lastSnapshot = None, finalized = False\<rparr>"
  by (simp add: emptiedAgain_def typed_eq finishStep_def canFinishStep_def commitStepEdits_def
      takeBuffers_def ensureIndices_def syncEditor_def backStep_def removePhotoAt_def
      removeText_def)

lemma finishProcess_twice_in_editor:
  "\<exists>st1 st2.
     finishProcess emptiedAgain = Inr st1 \<and> finishProcess (syncEditor st1) = Inr st2 \<and>
     process st1 = Some \<lparr>name = ''P'', version = JStr ''1.1'', createdAt = JStr ''T'',
        steps = [\<lparr>index = 1, photos = [], texts = [], done' = Some True\<rparr>]\<rparr> \<and>
     process st2 = Some \<lparr>name = ''P'', version = JStr ''1.2'', createdAt = JStr ''T'', steps = []\<rparr>"
  by (simp add: emptiedAgain_eq finishProcess_def takeBuffers_def dropLastEmpty_def
      ensureIndices_def snapshotOf_def toJSON_def stepJSON_def syncEditor_def bump_10 bump_11)

text \<open>
  Claim C4. \<open>finishProcess\<close> bumps the version exactly when the snapshot differs from the
  last one (\<open>finishProcess_version\<close>), and a second call without edits changes nothing
  when the first one left no empty last step (\<open>finishProcess_idempotent\<close>). It pops
  one empty last step per call, though: on a process that ends in two empty steps the
  second call, with no edit in between, removes the other step and bumps the version
  again, from \<open>1.1\<close> to \<open>1.2\<close>.
\<close>

theorem finishProcess_twice_C4:
  "\<exists>st1 st2.
     finishProcess loadedTwoEmpty = Inr st1 \<and> finishProcess (syncEditor st1) = Inr st2 \<and>
     process st1 = Some \<lparr>name = ''P'', version = JStr ''1.1'', createdAt = JStr ''T'',
        steps = [\<lparr>index = 1, photos = [], texts = [], done' = Some False\<rparr>]\<rparr> \<and>
     process st2 = Some \<lparr>name = ''P'', version = JStr ''1.2'', createdAt = JStr ''T'', steps = []\<rparr>"
  by (simp add: loadedTwoEmpty_eq finishProcess_def takeBuffers_def dropLastEmpty_def
      ensureIndices_def snapshotOf_def toJSON_def stepJSON_def syncEditor_def bump_10 bump_11)


section \<open>Properties: loading and saving\<close>

subsection \<open>Loops that may throw\<close>

lemma collect_Inr_iff: "collect xs = Inr ys \<longleftrightarrow> xs = map Inr ys"
proof (induction xs arbitrary: ys)
  case Nil
  then show ?case by auto
next
  case (Cons x xs)
  show ?case
  proof (cases x)
    case (Inl e)
    then show ?thesis by auto
  next
    case (Inr v)
    show ?thesis
    proof (cases "collect xs")
      case (Inl e)
      with Cons.IH have "xs \<noteq> map Inr zs" for zs by auto
      with Inl Inr show ?thesis by (cases ys) auto
    next
      case r: (Inr vs)
      from Cons.IH [of vs] r have "xs = map Inr vs" by simp
      with r Inr show ?thesis by (cases ys) auto
    qed
  qed
qed

lemma collect_succeeds: "\<forall>x \<in> set xs. \<exists>y. x = Inr y \<Longrightarrow> \<exists>ys. collect xs = Inr ys"
  by (induction xs) auto

lemma collect_fails: "Inl e \<in> set xs \<Longrightarrow> collect xs = Inl TypeError"
proof (induction xs)
  case Nil
  then show ?case by simp
next
  case (Cons x xs)
  show ?case
  proof (cases x)
    case (Inl e')
    then show ?thesis by (cases e') simp
  next
    case (Inr v)
    with Cons have "collect xs = Inl TypeError" by auto
    with Inr show ?thesis by simp
  qed
qed

lemma normalizeSteps_collect:
  "normalizeSteps uid i ss = collect (map (\<lambda>(k, s). normalizeStep (uid k) k s) (enumerate i ss))"
  by (induction ss arbitrary: i) (simp_all split: sum.splits)

lemma normalizeSteps_Inr:
  assumes "normalizeSteps uid i ss = Inr xs"
  shows "length xs = length ss"
    and "k < length ss \<Longrightarrow> normalizeStep (uid (i + k)) (i + k) (ss ! k) = Inr (xs ! k)"
proof -
  from assms have m: "map (\<lambda>(k, s). normalizeStep (uid k) k s) (enumerate i ss) = map Inr xs"
    by (simp add: normalizeSteps_collect collect_Inr_iff)
  from arg_cong [OF m, of length] show l: "length xs = length ss" by simp
  assume k: "k < length ss"
  from arg_cong [OF m, of "\<lambda>zs. zs ! k"] k l
  show "normalizeStep (uid (i + k)) (i + k) (ss ! k) = Inr (xs ! k)"
    by (simp add: nth_enumerate_eq)
qed

lemma normalizeSteps_fails:
  "JNull \<in> set ss \<Longrightarrow> normalizeSteps uid i ss = Inl TypeError"
proof -
  assume "JNull \<in> set ss"
  then obtain k where k: "k < length ss" "ss ! k = JNull" by (auto simp: in_set_conv_nth)
  let ?xs = "map (\<lambda>(k, s). normalizeStep (uid k) k s) (enumerate i ss)"
  from k have "?xs ! k = Inl TypeError" by (simp add: nth_enumerate_eq normalizeStep_def)
  moreover from k have "k < length ?xs" by simp
  ultimately have "Inl TypeError \<in> set ?xs" by (metis nth_mem)
  then show ?thesis by (simp only: normalizeSteps_collect collect_fails)
qed

subsection \<open>What a load refuses\<close>

lemma loadProcess_rejects:
  "file = Unparsable \<or>
   file = Payload obj \<and> (\<not> truthy_u (getProp obj ''name'') \<or> \<not> isArray (getProp obj ''steps'')) \<Longrightarrow>
     fst (loadProcess now uid file st) \<noteq> None \<and> snd (loadProcess now uid file st) = st"
  by (auto simp: loadProcess_def)

lemma loadProcess_alert_keeps:
  "fst (loadProcess now uid file st) \<noteq> None \<Longrightarrow> snd (loadProcess now uid file st) = st"
  by (auto simp: loadProcess_def Let_def split: upload.splits if_splits sum.splits)

lemma loadProcess_null_step_refused:
  assumes "truthy_u (getProp obj ''name'')" "getProp obj ''steps'' = Some (JArr ss)" "JNull \<in> set ss"
  shows "loadProcess now uid (Payload obj) st = (Some CouldNotLoad, st)"
proof -
  from assms(1) have t: "truthy obj" by (cases obj) (auto simp: truthy_u_def)
  show ?thesis
    using assms(1,2) t normalizeSteps_fails [OF assms(3), of uid 0]
    by (simp add: loadProcess_def isArray_def elems_def split: sum.splits)
qed

text \<open>
  Claim C7. A payload with a name whose \<open>steps\<close> is an array is to be loaded, with
  defaults for what is missing. The program refuses the payload
  \<open>{"name": "P", "steps": [null]}\<close>: \<open>s.index\<close> throws on the step \<open>null\<close>, the handler
  that catches every exception alerts \<open>Konnte die Datei nicht laden.\<close>, and nothing is
  loaded. (The texts of a step are read with \<open>t?.\<close>, which accepts \<open>null\<close>; the steps are
  not.)
\<close>

theorem loadProcess_null_step_C7:
  "getProp nullStepPayload ''name'' = Some (JStr ''P'') \<and>
   getProp nullStepPayload ''steps'' = Some (JArr [JNull]) \<and>
   nullStepLoad = (Some CouldNotLoad, initialApp)"
  by (simp add: nullStepLoad_def nullStepPayload_def truthy_u_def isArray_def loadProcess_def elems_def
      normalizeStep_def String_u_def normalizeVersion_def matchVersion_def isDigit_def)

text \<open>
  The handler refuses in the same way a payload in which a value the program converts to
  a string is an object with a key \<open>toString\<close>, here a photo. A payload whose name is the
  empty string has no name for the guard \<open>!obj.name\<close>, and is refused as invalid.
\<close>

lemma loadProcess_toString_refused:
  "loadProcess ''T'' constUid (Payload toStringPayload) initialApp = (Some CouldNotLoad, initialApp)"
  by (simp add: toStringPayload_def truthy_u_def isArray_def loadProcess_def elems_def
      normalizeStep_def String_u_def normalizeVersion_def matchVersion_def isDigit_def)

lemma loadProcess_empty_name_refused:
  "loadProcess ''T'' constUid (Payload emptyNamePayload) initialApp = (Some InvalidFile, initialApp)"
  by (simp add: emptyNamePayload_def truthy_u_def isArray_def loadProcess_def)

subsection \<open>What a load accepts, and the defaults it fills in\<close>

lemma plain_String: "plain v \<Longrightarrow> \<exists>s. String_js v = Inr s"
proof (induction v rule: String_js.induct)
  case (5 xs)
  have "\<forall>y \<in> set (map (\<lambda>x. if x = JNull then Inr [] else String_js x) xs). \<exists>s. y = Inr s"
    using 5 by (auto simp: list_all_iff)
  from collect_succeeds [OF this] show ?case by auto
next
  case (6 kvs)
  then show ?case by simp
qed simp_all

lemma plain_getProp: "plain v \<Longrightarrow> getProp v k = Some x \<Longrightarrow> plain x"
  by (cases v) (auto simp: list_all_iff dest!: map_of_SomeD)

lemma plain_optChain: "plain t \<Longrightarrow> optChain t k = Some x \<Longrightarrow> plain x"
  by (auto simp: optChain_def plain_getProp split: if_splits)

lemma plain_elems: "plain v \<Longrightarrow> getProp v k = Some (JArr xs) \<Longrightarrow> x \<in> set xs \<Longrightarrow> plain x"
  using plain_getProp [of v k "JArr xs"] by (simp add: list_all_iff)

lemma plain_or_js: "\<forall>x. v = Some x \<longrightarrow> plain x \<Longrightarrow> plain d \<Longrightarrow> plain (or_js v d)"
  by (auto simp: or_js_def split: option.splits)

lemma normalizeText_plain:
  assumes "plain t"
  shows "\<exists>x. normalizeText fresh t = Inr x"
proof -
  have "plain (or_js (optChain t ''id'') (JStr fresh))"
    using assms by (intro plain_or_js) (auto dest: plain_optChain)
  from plain_String [OF this] obtain i where
    i: "String_js (or_js (optChain t ''id'') (JStr fresh)) = Inr i" ..
  have "plain (or_js (optChain t ''content'') (JStr []))"
    using assms by (intro plain_or_js) (auto dest: plain_optChain)
  from plain_String [OF this] obtain c where
    c: "String_js (or_js (optChain t ''content'') (JStr [])) = Inr c" ..
  show ?thesis by (simp add: normalizeText_def i c)
qed

lemma normalizeStep_plain:
  assumes "plain s" "s \<noteq> JNull"
  shows "\<exists>x. normalizeStep fresh i s = Inr x"
proof -
  have p: "\<exists>ps. (if isArray (getProp s ''photos'')
               then collect (map String_js (elems (getProp s ''photos''))) else Inr []) = Inr ps"
  proof (cases "isArray (getProp s ''photos'')")
    case True
    then obtain xs where xs: "getProp s ''photos'' = Some (JArr xs)"
      by (auto simp: isArray_def split: option.splits json.splits)
    have "\<forall>y \<in> set (map String_js xs). \<exists>z. y = Inr z"
      using plain_elems [OF assms(1) xs] plain_String by auto
    from collect_succeeds [OF this] show ?thesis by (simp add: True xs elems_def)
  next
    case False
    then show ?thesis by simp
  qed
  have t: "\<exists>ts. (if isArray (getProp s ''texts'')
                    then collect (map (\<lambda>(j, t). normalizeText (fresh j) t)
                                   (enumerate 0 (elems (getProp s ''texts''))))
                    else Inr []) = Inr ts"
  proof (cases "isArray (getProp s ''texts'')")
    case True
    then obtain xs where xs: "getProp s ''texts'' = Some (JArr xs)"
      by (auto simp: isArray_def split: option.splits json.splits)
    have "\<forall>y \<in> set (map (\<lambda>(j, t). normalizeText (fresh j) t) (enumerate 0 xs)). \<exists>z. y = Inr z"
      using plain_elems [OF assms(1) xs] normalizeText_plain
      by (auto simp: in_set_enumerate_eq)
    from collect_succeeds [OF this] show ?thesis by (simp add: True xs elems_def)
  next
    case False
    then show ?thesis by simp
  qed
  from p t assms(2) show ?thesis
    by (auto simp: normalizeStep_def)
qed

lemma normalizeSteps_plain:
  assumes "\<forall>s \<in> set ss. plain s \<and> s \<noteq> JNull"
  shows "\<exists>xs. normalizeSteps uid i ss = Inr xs"
proof -
  have "\<forall>y \<in> set (map (\<lambda>(k, s). normalizeStep (uid k) k s) (enumerate i ss)). \<exists>z. y = Inr z"
    using assms normalizeStep_plain by (auto simp: in_set_enumerate_eq)
  from collect_succeeds [OF this] show ?thesis by (simp add: normalizeSteps_collect)
qed

lemma loadProcess_plain_accepted:
  assumes n: "truthy_u (getProp obj ''name'')"
    and a: "getProp obj ''steps'' = Some (JArr ss)"
    and nn: "JNull \<notin> set ss"
    and pl: "plain obj"
  shows "fst (loadProcess now uid (Payload obj) st) = None"
proof -
  from n have t: "truthy obj" by (cases obj) (auto simp: truthy_u_def)
  from n obtain nv where nv: "getProp obj ''name'' = Some nv"
    by (auto simp: truthy_u_def split: option.splits)
  from plain_String [OF plain_getProp [OF pl nv]] obtain nm where
    nm: "String_u (getProp obj ''name'') = Inr nm" by (auto simp: String_u_def nv)
  have "\<exists>s. String_u (getProp obj ''version'') = Inr s"
    using plain_String plain_getProp [OF pl]
    by (cases "getProp obj ''version''") (auto simp: String_u_def)
  then obtain ver where ver: "normalizeVersion (getProp obj ''version'') = Inr ver"
    by (auto simp: normalizeVersion_def)
  have "\<forall>s \<in> set ss. plain s \<and> s \<noteq> JNull"
    using plain_elems [OF pl a] nn by auto
  from normalizeSteps_plain [OF this] obtain xs where
    xs: "normalizeSteps uid 0 ss = Inr xs" by blast
  show ?thesis
    using n a t by (simp add: loadProcess_def isArray_def elems_def nm ver xs Let_def)
qed

lemma loadProcess_loaded:
  assumes "fst (loadProcess now uid (Payload obj) st) = None"
  shows "\<exists>nm ver xs.
     String_u (getProp obj ''name'') = Inr nm \<and>
     normalizeVersion (getProp obj ''version'') = Inr ver \<and>
     normalizeSteps uid 0 (elems (getProp obj ''steps'')) = Inr xs \<and>
     process (snd (loadProcess now uid (Payload obj) st)) =
       Some \<lparr>name = nm, version = ver,
             createdAt = or_js (getProp obj ''createdAt'') (JStr now),
             steps = ensureIndices xs\<rparr>"
  using assms by (auto simp: loadProcess_def Let_def split: if_splits sum.splits)

lemma normalizeVersion_malformed:
  "String_u v = Inr s \<Longrightarrow> \<not> versionForm s \<Longrightarrow> normalizeVersion v = Inr (JStr ''1.0'')"
  by (simp add: normalizeVersion_def versionForm_iff)

lemma normalizeVersion_wellformed:
  "String_u v = Inr s \<Longrightarrow> versionForm s \<Longrightarrow>
     normalizeVersion v = Inr (case v of Some j \<Rightarrow> j | None \<Rightarrow> JNull)"
  by (simp add: normalizeVersion_def versionForm_iff)

lemma or_js_default: "\<not> truthy_u v \<Longrightarrow> or_js v d = d"
  by (auto simp: or_js_def truthy_u_def split: option.splits)

lemma normalizeText_defaults:
  assumes "normalizeText fresh t = Inr x"
  shows "\<not> truthy_u (optChain t ''content'') \<Longrightarrow> content x = []"
    and "optChain t ''important'' = None \<Longrightarrow> \<not> important x"
  using assms
  by (auto simp: normalizeText_def or_js_default truthy_u_def split: sum.splits)

lemma normalizeStep_texts:
  assumes "normalizeStep fresh i s = Inr x" "getProp s ''texts'' = Some (JArr ts)"
  shows "length (texts x) = length ts"
    and "j < length ts \<Longrightarrow> normalizeText (fresh j) (ts ! j) = Inr (texts x ! j)"
proof -
  from assms have m: "map (\<lambda>(j, t). normalizeText (fresh j) t) (enumerate 0 ts) = map Inr (texts x)"
    by (auto simp: normalizeStep_def isArray_def elems_def collect_Inr_iff
        split: if_splits sum.splits)
  from arg_cong [OF m, of length] show l: "length (texts x) = length ts" by simp
  assume j: "j < length ts"
  from arg_cong [OF m, of "\<lambda>zs. zs ! j"] j l
  show "normalizeText (fresh j) (ts ! j) = Inr (texts x ! j)"
    by (simp add: nth_enumerate_eq)
qed

text \<open>
  Apart from that, a load fills in defaults. A payload with a truthy name whose \<open>steps\<close>
  is an array without \<open>null\<close>, and in which no object has a key \<open>toString\<close>, is loaded. A
  version whose text does not match \<open>^\d+\.\d+$\<close> becomes \<open>1.0\<close> (a matching string is
  kept), a missing or falsy \<open>createdAt\<close> becomes the current time, every step gets its
  1-based position as index, a text without content gets the empty content and a text
  without \<open>important\<close> is not important. An unparsable payload, and a payload without a
  truthy name or without an array of steps, is answered by an alert and leaves the state
  as it was (\<open>loadProcess_rejects\<close>).
\<close>

lemma loadProcess_defaults:
  assumes n: "truthy_u (getProp obj ''name'')"
    and a: "getProp obj ''steps'' = Some (JArr ss)"
    and nn: "JNull \<notin> set ss"
    and pl: "plain obj"
  shows "fst (loadProcess now uid (Payload obj) st) = None \<and>
      (\<exists>p. process (snd (loadProcess now uid (Payload obj) st)) = Some p \<and>
         (\<forall>s. String_u (getProp obj ''version'') = Inr s \<and> \<not> versionForm s \<longrightarrow>
              version p = JStr ''1.0'') \<and>
         (\<forall>v. getProp obj ''version'' = Some (JStr v) \<and> versionForm v \<longrightarrow> version p = JStr v) \<and>
         (\<not> truthy_u (getProp obj ''createdAt'') \<longrightarrow> createdAt p = JStr now) \<and>
         length (steps p) = length ss \<and>
         (\<forall>i < length ss. index (steps p ! i) = int i + 1 \<and>
            (\<forall>ts. getProp (ss ! i) ''texts'' = Some (JArr ts) \<longrightarrow>
               length (texts (steps p ! i)) = length ts \<and>
               (\<forall>j < length ts.
                  (\<not> truthy_u (optChain (ts ! j) ''content'') \<longrightarrow>
                     content (texts (steps p ! i) ! j) = []) \<and>
                  (optChain (ts ! j) ''important'' = None \<longrightarrow>
                     \<not> important (texts (steps p ! i) ! j))))))"
proof -
  have f: "fst (loadProcess now uid (Payload obj) st) = None"
    by (rule loadProcess_plain_accepted [OF n a nn pl])
  from loadProcess_loaded [OF f] obtain nm ver xs where
    ver: "normalizeVersion (getProp obj ''version'') = Inr ver"
    and xs: "normalizeSteps uid 0 ss = Inr xs"
    and pr: "process (snd (loadProcess now uid (Payload obj) st)) =
       Some \<lparr>name = nm, version = ver,
             createdAt = or_js (getProp obj ''createdAt'') (JStr now),
             steps = ensureIndices xs\<rparr>"
    by (auto simp: a elems_def)
  let ?p = "\<lparr>name = nm, version = ver,
             createdAt = or_js (getProp obj ''createdAt'') (JStr now),
             steps = ensureIndices xs\<rparr>"
  note len = normalizeSteps_Inr(1) [OF xs]
  have st: "normalizeStep (uid i) i (ss ! i) = Inr (xs ! i)" if "i < length ss" for i
    using normalizeSteps_Inr(2) [OF xs that] by simp
  have nth: "ensureIndices xs ! i = (xs ! i)\<lparr>index := int i + 1\<rparr>" if "i < length ss" for i
    using that len by (simp add: ensureIndices_nth)
  have texts_ok: "length (texts (ensureIndices xs ! i)) = length ts \<and>
       (\<forall>j < length ts.
          (\<not> truthy_u (optChain (ts ! j) ''content'') \<longrightarrow>
             content (texts (ensureIndices xs ! i) ! j) = []) \<and>
          (optChain (ts ! j) ''important'' = None \<longrightarrow>
             \<not> important (texts (ensureIndices xs ! i) ! j)))"
    if i: "i < length ss" and ts: "getProp (ss ! i) ''texts'' = Some (JArr ts)" for i ts
  proof -
    have t: "texts (ensureIndices xs ! i) = texts (xs ! i)" by (simp add: nth [OF i])
    note l = normalizeStep_texts(1) [OF st [OF i] ts]
    note e = normalizeStep_texts(2) [OF st [OF i] ts]
    show ?thesis
      unfolding t using l normalizeText_defaults [OF e] by simp
  qed
  have "(\<forall>s. String_u (getProp obj ''version'') = Inr s \<and> \<not> versionForm s \<longrightarrow>
              version ?p = JStr ''1.0'') \<and>
         (\<forall>v. getProp obj ''version'' = Some (JStr v) \<and> versionForm v \<longrightarrow> version ?p = JStr v) \<and>
         (\<not> truthy_u (getProp obj ''createdAt'') \<longrightarrow> createdAt ?p = JStr now) \<and>
         length (steps ?p) = length ss \<and>
         (\<forall>i < length ss. index (steps ?p ! i) = int i + 1 \<and>
            (\<forall>ts. getProp (ss ! i) ''texts'' = Some (JArr ts) \<longrightarrow>
               length (texts (steps ?p ! i)) = length ts \<and>
               (\<forall>j < length ts.
                  (\<not> truthy_u (optChain (ts ! j) ''content'') \<longrightarrow>
                     content (texts (steps ?p ! i) ! j) = []) \<and>
                  (optChain (ts ! j) ''important'' = None \<longrightarrow>
                     \<not> important (texts (steps ?p ! i) ! j)))))"
  proof (intro conjI allI impI)
    fix s assume "String_u (getProp obj ''version'') = Inr s \<and> \<not> versionForm s"
    then show "version ?p = JStr ''1.0''" using ver by (simp add: normalizeVersion_malformed)
  next
    fix v assume "getProp obj ''version'' = Some (JStr v) \<and> versionForm v"
    then show "version ?p = JStr v"
      using ver normalizeVersion_wellformed [of "getProp obj ''version''" v]
      by (simp add: String_u_def)
  next
    assume "\<not> truthy_u (getProp obj ''createdAt'')"
    then show "createdAt ?p = JStr now" by (simp add: or_js_default)
  next
    show "length (steps ?p) = length ss" by (simp add: len)
  next
    fix i assume "i < length ss"
    then show "index (steps ?p ! i) = int i + 1" by (simp add: nth)
  next
    fix i ts assume "i < length ss" "getProp (ss ! i) ''texts'' = Some (JArr ts)"
    then show "length (texts (steps ?p ! i)) = length ts" using texts_ok by simp
  next
    fix i ts j
    assume "i < length ss" "getProp (ss ! i) ''texts'' = Some (JArr ts)" "j < length ts"
      "\<not> truthy_u (optChain (ts ! j) ''content'')"
    then show "content (texts (steps ?p ! i) ! j) = []" using texts_ok by simp
  next
    fix i ts j
    assume "i < length ss" "getProp (ss ! i) ''texts'' = Some (JArr ts)" "j < length ts"
      "optChain (ts ! j) ''important'' = None"
    then show "\<not> important (texts (steps ?p ! i) ! j)" using texts_ok by simp
  qed
  with f pr show ?thesis by blast
qed

text \<open>
  On the file \<open>sparsePayload\<close>: the version \<open>v2\<close> becomes \<open>1.0\<close>, the creation time is the
  clock's, the step has index 1, and its text has the empty content and is not
  important.
\<close>

lemma loadProcess_sparse:
  "process (snd (loadProcess ''T'' constUid (Payload sparsePayload) initialApp)) =
     Some \<lparr>name = ''P'', version = JStr ''1.0'', createdAt = JStr ''T'',
           steps = [\<lparr>index = 1, photos = [],
                     texts = [\<lparr>id' = ''a'', content = [], important = False\<rparr>],
                     done' = Some False\<rparr>]\<rparr>"
  by (simp add: sparsePayload_def loadProcess_def initialApp_def truthy_u_def isArray_def
      elems_def normalizeStep_def normalizeText_def optChain_def String_u_def
      normalizeVersion_def matchVersion_def isDigit_def or_js_def ensureIndices_def)

subsection \<open>Saving and loading again\<close>



lemma map_String_JStr: "map String_js (map JStr ps) = map Inr ps"
  by (induction ps) simp_all







text \<open>
  The records the program holds have a truthy creation time, steps indexed by position
  and a version whose conversion to a string does not throw: \<open>startNew\<close> and
  \<open>loadProcess\<close> make such a record (the clock's time is not the empty string, and
  \<open>loadProcess\<close> keeps a version only after \<open>test\<close> has converted it), and
  \<open>finishProcess\<close>, \<open>finishStep\<close> and \<open>backStep\<close> keep it so.
\<close>

lemma startNew_held:
  "now \<noteq> [] \<Longrightarrow> nm \<noteq> [] \<Longrightarrow> process (startNew nm v now st) = Some p \<Longrightarrow>
     truthy (createdAt p) \<and> ensureIndices (steps p) = steps p \<and>
     (\<exists>s. String_js (version p) = Inr s)"
  by (auto simp: startNew_def ensureIndices_def)

lemma finishProcess_held:
  assumes "process st = Some p" "truthy (createdAt p)" "\<exists>s. String_js (version p) = Inr s"
    "finishProcess st = Inr st'" "process st' = Some p'"
  shows "truthy (createdAt p') \<and> ensureIndices (steps p') = steps p' \<and>
     (\<exists>s. String_js (version p') = Inr s)"
  using assms
  by (auto simp: finishProcess_def Let_def ensureIndices_idem split: if_splits json.splits)

lemma normalizeVersion_converts:
  assumes "normalizeVersion v = Inr ver"
  shows "\<exists>s. String_js ver = Inr s"
  using assms
  by (cases v) (auto simp: normalizeVersion_def String_u_def split: sum.splits if_splits)

lemma loadProcess_held:
  assumes "now \<noteq> []" "fst (loadProcess now uid (Payload obj) st) = None"
    "process (snd (loadProcess now uid (Payload obj) st)) = Some p"
  shows "truthy (createdAt p) \<and> ensureIndices (steps p) = steps p \<and>
     (\<exists>s. String_js (version p) = Inr s)"
proof -
  have t: "truthy (or_js v (JStr now))" for v
    using assms(1) by (auto simp: or_js_def split: option.splits)
  from loadProcess_loaded [OF assms(2)] assms(3) obtain nm ver xs where
    v: "normalizeVersion (getProp obj ''version'') = Inr ver"
    and p: "p = \<lparr>name = nm, version = ver,
             createdAt = or_js (getProp obj ''createdAt'') (JStr now),
             steps = ensureIndices xs\<rparr>"
    by auto
  show ?thesis
    using t normalizeVersion_converts [OF v] by (simp add: p ensureIndices_idem)
qed

lemma finishStep_held:
  assumes "process st = Some p" "truthy (createdAt p)" "\<exists>s. String_js (version p) = Inr s"
    "ensureIndices (steps p) = steps p" "finishStep st = Inr st'" "process st' = Some p'"
  shows "truthy (createdAt p') \<and> ensureIndices (steps p') = steps p' \<and>
     (\<exists>s. String_js (version p') = Inr s)"
  using assms
  by (auto simp: finishStep_def commitStepEdits_def ensureIndices_idem
      split: if_splits sum.splits)

lemma backStep_held:
  assumes "process st = Some p" "truthy (createdAt p)" "\<exists>s. String_js (version p) = Inr s"
    "ensureIndices (steps p) = steps p" "backStep st = Inr st'" "process st' = Some p'"
  shows "truthy (createdAt p') \<and> ensureIndices (steps p') = steps p' \<and>
     (\<exists>s. String_js (version p') = Inr s)"
  using assms
  by (auto simp: backStep_def commitStepEdits_def ensureIndices_idem
      split: if_splits sum.splits)




section \<open>Properties: the PDF export\<close>

subsection \<open>The image scale\<close>

text \<open>
  Without rounding, an image of \<open>w\<close> by \<open>h\<close> pixels, both positive, is scaled to \<open>w * s\<close>
  by \<open>h * s\<close> with \<open>s = min (maxImgW / w) (maxImgH / h) 1\<close>: the scale is at most 1, the
  scaled image is no larger than the image and fits the box of \<open>maxImgW\<close> by \<open>maxImgH\<close>,
  and width and height keep their proportion. This is a fact of the exact arithmetic the
  pager is modelled in, not of the program's doubles.
\<close>

lemma scaleDims_exact:
  "0 < w \<and> 0 < h \<Longrightarrow>
     (let s = min (min (maxImgW g / real w) (maxImgH g / real h)) 1;
          d = scaleDims g (w, h)
      in d = (real w * s, real h * s) \<and> s \<le> 1 \<and>
         fst d \<le> real w \<and> snd d \<le> real h \<and>
         fst d \<le> maxImgW g \<and> snd d \<le> maxImgH g \<and>
         fst d * real h = snd d * real w \<and>
         (72 < pageW g \<and> 72 < pageH g \<longrightarrow> 0 < s \<and> fst d / snd d = real w / real h))"
proof -
  assume pos: "0 < w \<and> 0 < h"
  define s where "s = min (min (maxImgW g / real w) (maxImgH g / real h)) 1"
  have sc: "scaleOf g w h = s"
    using pos by (simp add: scaleOf_def capBy_def s_def min.commute min.left_commute)
  have d: "scaleDims g (w, h) = (real w * s, real h * s)"
    by (simp add: scaleDims_def sc)
  have s1: "s \<le> 1" by (simp add: s_def)
  have sw: "s \<le> maxImgW g / real w" and sh: "s \<le> maxImgH g / real h"
    by (simp_all add: s_def)
  from pos sw have fw: "real w * s \<le> maxImgW g"
    by (simp add: pos_le_divide_eq mult.commute)
  from pos sh have fh: "real h * s \<le> maxImgH g"
    by (simp add: pos_le_divide_eq mult.commute)
  from pos s1 have lw: "real w * s \<le> real w" and lh: "real h * s \<le> real h"
    by (simp_all add: mult_left_le)
  have box: "72 < pageW g \<and> 72 < pageH g \<longrightarrow> 0 < s"
    using pos by (auto simp: s_def maxImgW_def maxImgH_def contentW_def margin_def A6W_def A6H_def)
  have ratio: "0 < s \<Longrightarrow> (real w * s) / (real h * s) = real w / real h"
    by simp
  show ?thesis
    unfolding Let_def s_def [symmetric] d using s1 fw fh lw lh box ratio by auto
qed













































subsection \<open>Room on the page\<close>

lemma stamp_yPos [simp]: "stamp (st\<lparr>yPos := y\<rparr>) c = stamp st c"
  by (simp add: stamp_def)

lemma drawLines_closed:
  "drawLines ls st =
     (map (\<lambda>(k, l). stamp st (TextCall l margin (yPos st + 14 * real k) AlignLeft)) (enumerate 0 ls),
      st\<lparr>yPos := yPos st + 14 * real (length ls)\<rparr>)"
proof (induction ls arbitrary: st)
  case Nil
  then show ?case by simp
next
  case (Cons l ls)
  show ?case
    by (simp add: Cons.IH enumerate_Suc_eq split_def comp_def algebra_simps)
qed








lemma ensureSpace_pages:
  "curPage st = numPages st \<Longrightarrow>
     curPage (ensureSpace g n st) = numPages (ensureSpace g n st) \<and>
     curPage st \<le> curPage (ensureSpace g n st)"
  by (simp add: ensureSpace_def addPage_def)

lemma ensureSpace_settings [simp]:
  "bold (ensureSpace g n st) = bold st" "fontSize (ensureSpace g n st) = fontSize st"
  "textColor (ensureSpace g n st) = textColor st"
  by (simp_all add: ensureSpace_def addPage_def)

subsection \<open>Placement\<close>












lemma pagesGrow_nil: "curPage st = numPages st \<Longrightarrow> pagesGrow st ([], st)"
  by (simp add: pagesGrow_def)

lemma pagesGrow_append:
  assumes "pagesGrow st (bs, st1)" "pagesGrow st1 (bs', st2)"
  shows "pagesGrow st (bs @ bs', st2)"
  using assms by (fastforce simp: pagesGrow_def)

lemma drawPhoto_pages:
  assumes "curPage st = numPages st"
  shows "pagesGrow st (drawPhoto e g s p u st)"
proof (cases "loadImage e u")
  case None
  then show ?thesis using assms by (simp add: drawPhoto_def pagesGrow_def)
next
  case (Some img)
  note e1 = ensureSpace_pages [OF assms, of g "snd (scaleDims g img)"]
  with Some show ?thesis
    by (simp add: drawPhoto_def pagesGrow_def Let_def stamp_def)
qed

lemma drawPhotos_pages:
  "curPage st = numPages st \<Longrightarrow> pagesGrow st (drawPhotos e g s p us st)"
proof (induction us arbitrary: p st)
  case Nil
  then show ?case by (simp add: pagesGrow_nil)
next
  case (Cons u us)
  obtain bs st1 where a: "drawPhoto e g s p u st = (bs, st1)" by (cases "drawPhoto e g s p u st")
  obtain bs' st2 where b: "drawPhotos e g s (Suc p) us st1 = (bs', st2)"
    by (cases "drawPhotos e g s (Suc p) us st1")
  from drawPhoto_pages [OF Cons.prems, of e g s p u] a have 1: "pagesGrow st (bs, st1)" by simp
  then have "curPage st1 = numPages st1" by (simp add: pagesGrow_def)
  from Cons.IH [OF this, of "Suc p"] b have 2: "pagesGrow st1 (bs', st2)" by simp
  from pagesGrow_append [OF 1 2] a b show ?case by simp
qed

lemma drawText_pages:
  assumes "curPage st = numPages st"
  shows "pagesGrow st (drawText e g s idx k t st)"
proof -
  let ?lines = "splitTextToSize e (bold st) (fontSize st) (labelOf idx k @ content t) (contentW g)"
  note e1 = ensureSpace_pages [OF assms, of g "real (length ?lines) * 14 + 6"]
  then show ?thesis
    by (simp add: drawText_def Let_def drawLines_closed pagesGrow_def stamp_def split_def)
qed

lemma drawTexts_pages:
  "curPage st = numPages st \<Longrightarrow> pagesGrow st (drawTexts e g s idx k ts st)"
proof (induction ts arbitrary: k st)
  case Nil
  then show ?case by (simp add: pagesGrow_nil)
next
  case (Cons t ts)
  obtain bs st1 where a: "drawText e g s idx k t st = (bs, st1)" by (cases "drawText e g s idx k t st")
  obtain bs' st2 where b: "drawTexts e g s idx (Suc k) ts st1 = (bs', st2)"
    by (cases "drawTexts e g s idx (Suc k) ts st1")
  from drawText_pages [OF Cons.prems, of e g s idx k t] a have 1: "pagesGrow st (bs, st1)" by simp
  then have "curPage st1 = numPages st1" by (simp add: pagesGrow_def)
  from Cons.IH [OF this, of "Suc k"] b have 2: "pagesGrow st1 (bs', st2)" by simp
  from pagesGrow_append [OF 1 2] a b show ?case by simp
qed

text \<open>What a step with content draws: the heading first, on the page the reserve chooses.\<close>

lemma drawStep_heading:
  fixes e :: env and g :: geometry and st :: pdf and step :: StepData and s :: nat
  assumes c: "curPage st = numPages st" and ne: "\<not> (photos step = [] \<and> texts step = [])"
  defines "st1 \<equiv> (if spaceLeft g st < reserveOf e g step then addPage st else st)"
  shows "\<exists>rest st'.
     drawStep e g s step st =
       (\<lparr>kind = HeadingBlock s, needed = reserveOf e g step, topY = yPos st1,
         calls = [stamp (st1\<lparr>bold := True, fontSize := 13\<rparr>)
                   (TextCall (''Schritt '' @ showInt (index step)) margin (yPos st1) AlignLeft)]\<rparr>
        # rest, st') \<and>
     pagesGrow st1 (rest, st')"
proof -
  let ?st3 = "st1\<lparr>bold := True, fontSize := 13, yPos := yPos st1 + 20\<rparr>"
  have c1: "curPage st1 = numPages st1" using c by (simp add: st1_def addPage_def)
  then have c3: "curPage ?st3 = numPages ?st3" by simp
  obtain imgs st4 where a: "drawPhotos e g s 0 (photos step) ?st3 = (imgs, st4)"
    by (cases "drawPhotos e g s 0 (photos step) ?st3")
  let ?st4 = "st4\<lparr>bold := False, fontSize := 11\<rparr>"
  obtain txts st5 where b: "drawTexts e g s (index step) 0 (texts step) ?st4 = (txts, st5)"
    by (cases "drawTexts e g s (index step) 0 (texts step) ?st4")
  from drawPhotos_pages [OF c3, of e g s 0 "photos step"] a have 1: "pagesGrow ?st3 (imgs, st4)" by simp
  then have "curPage ?st4 = numPages ?st4" by (simp add: pagesGrow_def)
  from drawTexts_pages [OF this, of e g s "index step" 0 "texts step"] b
  have 2: "pagesGrow ?st4 (txts, st5)" by simp
  from 1 have q1: "pagesGrow st1 (imgs, ?st4)" by (fastforce simp: pagesGrow_def)
  from pagesGrow_append [OF q1 2] have "pagesGrow st1 (imgs @ txts, st5)" .
  then have 3: "pagesGrow st1 (imgs @ txts, st5\<lparr>yPos := yPos st5 + 6\<rparr>)"
    by (fastforce simp: pagesGrow_def)
  have eq: "drawStep e g s step st =
      (\<lparr>kind = HeadingBlock s, needed = reserveOf e g step, topY = yPos st1,
        calls = [stamp (st1\<lparr>bold := True, fontSize := 13\<rparr>)
                  (TextCall (''Schritt '' @ showInt (index step)) margin (yPos st1) AlignLeft)]\<rparr>
       # imgs @ txts, st5\<lparr>yPos := yPos st5 + 6\<rparr>)"
    using ne a b by (simp add: drawStep_def Let_def st1_def)
  show ?thesis using eq 3 by blast
qed

lemma drawStep_pages:
  assumes c: "curPage st = numPages st"
  shows "pagesGrow st (drawStep e g s step st)"
proof (cases "photos step = [] \<and> texts step = []")
  case True
  then show ?thesis using c by (simp add: drawStep_def pagesGrow_def)
next
  case False
  define st1 where "st1 = (if spaceLeft g st < reserveOf e g step then addPage st else st)"
  from drawStep_heading [OF c False, where e = e and g = g and s = s] obtain rest st' where
    eq: "drawStep e g s step st =
       (\<lparr>kind = HeadingBlock s, needed = reserveOf e g step, topY = yPos st1,
         calls = [stamp (st1\<lparr>bold := True, fontSize := 13\<rparr>)
                   (TextCall (''Schritt '' @ showInt (index step)) margin (yPos st1) AlignLeft)]\<rparr>
        # rest, st')"
    and pg: "pagesGrow st1 (rest, st')"
    unfolding st1_def by blast
  have le: "curPage st \<le> curPage st1" by (simp add: st1_def addPage_def c)
  show ?thesis
    unfolding eq using pg le by (fastforce simp: pagesGrow_def stamp_def)
qed

text \<open>
  Every step of the export starts on the last page of the document: the title leaves
  the document on its only page, and each step leaves it on its last page.
\<close>

lemma drawSteps_pages:
  "curPage st = numPages st \<Longrightarrow> pagesGrow st (drawSteps e g s ss st)"
proof (induction ss arbitrary: s st)
  case Nil
  then show ?case by (simp add: pagesGrow_nil)
next
  case (Cons step ss)
  obtain bs st1 where a: "drawStep e g s step st = (bs, st1)" by (cases "drawStep e g s step st")
  obtain bs' st2 where b: "drawSteps e g (Suc s) ss st1 = (bs', st2)"
    by (cases "drawSteps e g (Suc s) ss st1")
  from drawStep_pages [OF Cons.prems, of e g s step] a have 1: "pagesGrow st (bs, st1)" by simp
  then have "curPage st1 = numPages st1" by (simp add: pagesGrow_def)
  from Cons.IH [OF this, of "Suc s"] b have 2: "pagesGrow st1 (bs', st2)" by simp
  from pagesGrow_append [OF 1 2] a b show ?case by simp
qed

lemma drawTitle_pages:
  "curPage (snd (drawTitle e g p newPdf)) = numPages (snd (drawTitle e g p newPdf))"
  by (simp add: drawTitle_def newPdf_def Let_def)

text \<open>
  Claim C2. For a step with content, the reserve is 20 for the heading plus, when the
  step has a photo, the scaled height of the first photo and a gap of 12 (120 when that
  photo cannot be decoded), and 40 when it has none. The heading is the first thing the
  step draws. When the room left on the page is smaller than the reserve, the heading is
  drawn at the top margin of a new page, the one after the current page, and every call
  of every block of the step is on a page after the current one: none of the step is
  left on the page before. Otherwise the heading is drawn where \<open>y\<close> stands, on the
  current page. (The step starts on the document's last page, as every step of the
  export does: \<open>drawSteps_pages\<close>.)
\<close>

theorem heading_reserve_C2:
  "curPage st = numPages st \<and> \<not> (photos step = [] \<and> texts step = []) \<longrightarrow>
   (\<exists>hd rest st'.
      drawStep e g s step st = (hd # rest, st') \<and> kind hd = HeadingBlock s \<and>
      needed hd =
        20 + (case photos step of
                [] \<Rightarrow> 40
              | u # _ \<Rightarrow> (case loadImage e u of None \<Rightarrow> 120 | Some img \<Rightarrow> snd (scaleDims g img) + 12)) \<and>
      map call (calls hd) =
        [TextCall (''Schritt '' @ showInt (index step)) margin (topY hd) AlignLeft] \<and>
      (spaceLeft g st < needed hd \<longrightarrow>
         topY hd = margin \<and> map onPage (calls hd) = [curPage st + 1] \<and>
         (\<forall>b \<in> set (hd # rest). \<forall>d \<in> set (calls b). curPage st < onPage d)) \<and>
      (\<not> spaceLeft g st < needed hd \<longrightarrow>
         topY hd = yPos st \<and> map onPage (calls hd) = [curPage st]))"
proof
  assume h: "curPage st = numPages st \<and> \<not> (photos step = [] \<and> texts step = [])"
  define st1 where "st1 = (if spaceLeft g st < reserveOf e g step then addPage st else st)"
  define hd where "hd = \<lparr>kind = HeadingBlock s, needed = reserveOf e g step, topY = yPos st1,
         calls = [stamp (st1\<lparr>bold := True, fontSize := 13\<rparr>)
                   (TextCall (''Schritt '' @ showInt (index step)) margin (yPos st1) AlignLeft)]\<rparr>"
  from h drawStep_heading [of st step e g s] obtain rest st' where
    eq: "drawStep e g s step st = (hd # rest, st')" and pg: "pagesGrow st1 (rest, st')"
    unfolding st1_def hd_def by blast
  have k: "kind hd = HeadingBlock s" and n: "needed hd = reserveOf e g step"
    and c: "map call (calls hd) = [TextCall (''Schritt '' @ showInt (index step)) margin (topY hd) AlignLeft]"
    and o: "map onPage (calls hd) = [curPage st1]" and t: "topY hd = yPos st1"
    by (simp_all add: hd_def stamp_def)
  have r: "reserveOf e g step =
        20 + (case photos step of
                [] \<Rightarrow> 40
              | u # _ \<Rightarrow> (case loadImage e u of None \<Rightarrow> 120 | Some img \<Rightarrow> snd (scaleDims g img) + 12))"
    by (simp add: reserveOf_def)
  have new: "topY hd = margin \<and> map onPage (calls hd) = [curPage st + 1] \<and>
         (\<forall>b \<in> set (hd # rest). \<forall>d \<in> set (calls b). curPage st < onPage d)"
    if "spaceLeft g st < needed hd"
  proof -
    from that n have s1: "st1 = addPage st" by (simp add: st1_def)
    with h have p1: "curPage st1 = curPage st + 1" and y1: "yPos st1 = margin"
      by (simp_all add: addPage_def)
    from pg p1 have "\<forall>b \<in> set rest. \<forall>d \<in> set (calls b). curPage st < onPage d"
      by (fastforce simp: pagesGrow_def)
    moreover have "\<forall>d \<in> set (calls hd). curPage st < onPage d"
      using p1 by (simp add: hd_def stamp_def)
    ultimately show ?thesis using t y1 o p1 by simp
  qed
  have old: "topY hd = yPos st \<and> map onPage (calls hd) = [curPage st]"
    if "\<not> spaceLeft g st < needed hd"
  proof -
    from that n have "st1 = st" by (simp add: st1_def)
    then show ?thesis using t o by simp
  qed
  show "\<exists>hd rest st'.
      drawStep e g s step st = (hd # rest, st') \<and> kind hd = HeadingBlock s \<and>
      needed hd =
        20 + (case photos step of
                [] \<Rightarrow> 40
              | u # _ \<Rightarrow> (case loadImage e u of None \<Rightarrow> 120 | Some img \<Rightarrow> snd (scaleDims g img) + 12)) \<and>
      map call (calls hd) =
        [TextCall (''Schritt '' @ showInt (index step)) margin (topY hd) AlignLeft] \<and>
      (spaceLeft g st < needed hd \<longrightarrow>
         topY hd = margin \<and> map onPage (calls hd) = [curPage st + 1] \<and>
         (\<forall>b \<in> set (hd # rest). \<forall>d \<in> set (calls b). curPage st < onPage d)) \<and>
      (\<not> spaceLeft g st < needed hd \<longrightarrow>
         topY hd = yPos st \<and> map onPage (calls hd) = [curPage st])"
    using eq k n r c new old by (intro exI [of _ hd] exI [of _ rest] exI [of _ st']) simp
qed



lemma drawPhoto_outline:
  "map outline (fst (drawPhoto e g s k u st)) = (if drawable e u then [(ImageBlock s k, [u])] else [])"
  by (auto simp: drawPhoto_def drawable_def outline_def payload_def stamp_def Let_def split: option.splits)

lemma drawPhotos_outline:
  "map outline (fst (drawPhotos e g s k us st)) = imageBlocks e s k us"
proof (induction us arbitrary: k st)
  case Nil
  then show ?case by simp
next
  case (Cons u us)
  obtain bs st1 where a: "drawPhoto e g s k u st = (bs, st1)" by (cases "drawPhoto e g s k u st")
  obtain bs' st2 where b: "drawPhotos e g s (Suc k) us st1 = (bs', st2)"
    by (cases "drawPhotos e g s (Suc k) us st1")
  from drawPhoto_outline [of e g s k u st] a
  have 1: "map outline bs = (if drawable e u then [(ImageBlock s k, [u])] else [])" by simp
  from Cons.IH [of "Suc k" st1] b have 2: "map outline bs' = imageBlocks e s (Suc k) us" by simp
  show ?case using a b 1 2 by simp
qed

lemma drawPhotos_settings:
  "bold (snd (drawPhotos e g s k us st)) = bold st \<and> fontSize (snd (drawPhotos e g s k us st)) = fontSize st
   \<and> textColor (snd (drawPhotos e g s k us st)) = textColor st"
proof (induction us arbitrary: k st)
  case Nil
  then show ?case by simp
next
  case (Cons u us)
  obtain bs st1 where a: "drawPhoto e g s k u st = (bs, st1)" by (cases "drawPhoto e g s k u st")
  obtain bs' st2 where b: "drawPhotos e g s (Suc k) us st1 = (bs', st2)"
    by (cases "drawPhotos e g s (Suc k) us st1")
  from a have "bold st1 = bold st \<and> fontSize st1 = fontSize st \<and> textColor st1 = textColor st"
    by (auto simp: drawPhoto_def Let_def split: option.splits if_splits)
  with Cons.IH [of "Suc k" st1] a b show ?case by simp
qed

lemma drawText_outline:
  "map outline (fst (drawText e g s idx i t st)) =
     [(TextBlock s i, splitTextToSize e (bold st) (fontSize st) (labelOf idx i @ content t) (contentW g))]"
  and drawText_bold: "bold (snd (drawText e g s idx i t st)) = important t"
  and drawText_size: "fontSize (snd (drawText e g s idx i t st)) = fontSize st"
  by (simp_all add: drawText_def Let_def drawLines_closed outline_def payload_def stamp_def
      split_def comp_def)

lemma drawTexts_outline:
  "fontSize st = 11 \<Longrightarrow>
     map outline (fst (drawTexts e g s idx i ts st)) = textBlocks e g s idx i (bold st) ts"
proof (induction ts arbitrary: i st)
  case Nil
  then show ?case by simp
next
  case (Cons t ts)
  obtain bs st1 where a: "drawText e g s idx i t st = (bs, st1)" by (cases "drawText e g s idx i t st")
  obtain bs' st2 where b: "drawTexts e g s idx (Suc i) ts st1 = (bs', st2)"
    by (cases "drawTexts e g s idx (Suc i) ts st1")
  from drawText_outline [of e g s idx i t st] a Cons.prems
  have 1: "map outline bs = [(TextBlock s i, splitTextToSize e (bold st) 11 (labelOf idx i @ content t) (contentW g))]"
    by simp
  from drawText_bold [of e g s idx i t st] drawText_size [of e g s idx i t st] a Cons.prems
  have s1: "bold st1 = important t" "fontSize st1 = 11" by simp_all
  from Cons.IH [OF s1(2), of "Suc i"] b s1
  have 2: "map outline bs' = textBlocks e g s idx (Suc i) (important t) ts" by simp
  show ?case using a b 1 2 by simp
qed

lemma drawStep_outline: "map outline (fst (drawStep e g s step st)) = stepBlocks e g s step"
proof (cases "photos step = [] \<and> texts step = []")
  case True
  then show ?thesis by (simp add: drawStep_def stepBlocks_def)
next
  case False
  let ?st1 = "if spaceLeft g st < reserveOf e g step then addPage st else st"
  let ?st3 = "?st1\<lparr>bold := True, fontSize := 13, yPos := yPos ?st1 + 20\<rparr>"
  obtain imgs st4 where a: "drawPhotos e g s 0 (photos step) ?st3 = (imgs, st4)"
    by (cases "drawPhotos e g s 0 (photos step) ?st3")
  let ?st4 = "st4\<lparr>bold := False, fontSize := 11\<rparr>"
  obtain txts st5 where b: "drawTexts e g s (index step) 0 (texts step) ?st4 = (txts, st5)"
    by (cases "drawTexts e g s (index step) 0 (texts step) ?st4")
  from drawPhotos_outline [of e g s 0 "photos step" ?st3] a
  have 1: "map outline imgs = imageBlocks e s 0 (photos step)" by simp
  from drawTexts_outline [of ?st4 e g s "index step" 0 "texts step"] b
  have 2: "map outline txts = textBlocks e g s (index step) 0 False (texts step)" by simp
  show ?thesis
    using False a b 1 2
    by (simp add: drawStep_def Let_def stepBlocks_def outline_def payload_def stamp_def)
qed

lemma drawSteps_outline: "map outline (fst (drawSteps e g s ss st)) = stepsBlocks e g s ss"
proof (induction ss arbitrary: s st)
  case Nil
  then show ?case by simp
next
  case (Cons step ss)
  obtain bs st1 where a: "drawStep e g s step st = (bs, st1)" by (cases "drawStep e g s step st")
  obtain bs' st2 where b: "drawSteps e g (Suc s) ss st1 = (bs', st2)"
    by (cases "drawSteps e g (Suc s) ss st1")
  from drawStep_outline [of e g s step st] a have 1: "map outline bs = stepBlocks e g s step" by simp
  from Cons.IH [of "Suc s" st1] b have 2: "map outline bs' = stepsBlocks e g (Suc s) ss" by simp
  show ?case using a b 1 2 by simp
qed

lemma drawFooters_kinds: "map kind (fst (drawFooters e g p tot ns st)) = map FooterBlock ns"
proof (induction ns arbitrary: st)
  case Nil
  then show ?case by simp
next
  case (Cons n ns)
  obtain bs st1 where a: "drawFooter e g p tot n st = (bs, st1)" by (cases "drawFooter e g p tot n st")
  obtain bs' st2 where b: "drawFooters e g p tot ns st1 = (bs', st2)"
    by (cases "drawFooters e g p tot ns st1")
  from a have "map kind bs = [FooterBlock n]" by (auto simp: drawFooter_def Let_def)
  with Cons.IH [of st1] a b show ?case by simp
qed

text \<open>
  Claim C6. The blocks drawn for the steps are those of \<open>stepsBlocks\<close>: in the order of
  \<open>process.steps\<close>, nothing for a step whose photos and texts are both empty, and for any
  other step one heading, then the image blocks of its photos in the order of \<open>photos\<close>
  (a photo that cannot be decoded or embedded is skipped), then the text blocks of its
  texts in the order of \<open>texts\<close>. The whole document is the title, these blocks, and a
  footer for each page.
\<close>

theorem block_sequence_C6:
  "map outline (fst (drawSteps e g 0 (steps p) st)) = stepsBlocks e g 0 (steps p) \<and>
   (\<exists>n. map kind (renderPDF e g p) =
      TitleBlock # map fst (stepsBlocks e g 0 (steps p)) @ map FooterBlock [1 ..< Suc n])"
proof
  show "map outline (fst (drawSteps e g 0 (steps p) st)) = stepsBlocks e g 0 (steps p)"
    by (rule drawSteps_outline)
  obtain tb st1 where t: "drawTitle e g p newPdf = (tb, st1)" by (cases "drawTitle e g p newPdf")
  obtain sb st2 where s: "drawSteps e g 0 (steps p) st1 = (sb, st2)"
    by (cases "drawSteps e g 0 (steps p) st1")
  obtain fb st3 where f: "drawFooters e g p (numPages st2) [1 ..< Suc (numPages st2)] st2 = (fb, st3)"
    by (cases "drawFooters e g p (numPages st2) [1 ..< Suc (numPages st2)] st2")
  have r: "renderPDF e g p = tb @ sb @ fb"
    by (simp only: renderPDF_def t s f prod.case)
  from t have tk: "map kind tb = [TitleBlock]" by (auto simp: drawTitle_def Let_def)
  from drawSteps_outline [of e g 0 "steps p" st1] s
  have "map outline sb = stepsBlocks e g 0 (steps p)" by simp
  then have "map fst (map outline sb) = map fst (stepsBlocks e g 0 (steps p))" by simp
  then have sk: "map kind sb = map fst (stepsBlocks e g 0 (steps p))"
    by (simp add: outline_def comp_def)
  from drawFooters_kinds [of e g p "numPages st2" "[1 ..< Suc (numPages st2)]" st2] f
  have fk: "map kind fb = map FooterBlock [1 ..< Suc (numPages st2)]" by simp
  have "map kind (renderPDF e g p) =
      TitleBlock # map fst (stepsBlocks e g 0 (steps p)) @ map FooterBlock [1 ..< Suc (numPages st2)]"
    unfolding r using tk sk fk by (simp only: map_append append_Cons append_Nil)
  then show "\<exists>n. map kind (renderPDF e g p) =
      TitleBlock # map fst (stepsBlocks e g 0 (steps p)) @ map FooterBlock [1 ..< Suc n]" ..
qed


lemma showNat_small: "n < 10 \<Longrightarrow> showNat n = [digitChar n]"
  by (subst showNat.simps) simp

lemmas render_defs =
  renderPDF_def drawTitle_def drawStep_def drawText_def drawPhoto_def drawFooter_def
  newPdf_def stamp_def reserveOf_def ensureSpace_def spaceLeft_def addPage_def labelOf_def
  scaleDims_def scaleOf_def capBy_def maxImgW_def maxImgH_def contentW_def A6W_def A6H_def
  margin_def a4_def sampleEnv_def showInt_def showNat_small digitChar_numeral templateText_def Let_def

text \<open>
  An important text is drawn bold and red, any other text normal and black; and the
  document keeps the settings of the text drawn last.
\<close>

lemma drawText_settings:
  "drawText e g s idx i t st = (bs, st') \<Longrightarrow>
     (\<forall>b \<in> set bs. \<forall>d \<in> set (calls b).
        isBold d = important t \<and>
        inColor d = (if important t then (200, 0, 0) else (0, 0, 0))) \<and>
     bold st' = important t \<and>
     textColor st' = (if important t then (200, 0, 0) else (0, 0, 0))"
  by (auto simp: drawText_def Let_def drawLines_closed stamp_def split_def)

text \<open>
  Claim C9. After an important text the colour and the weight are to be back to normal
  for whatever is drawn next. The program sets colour and weight before each text and
  never after it: a text that follows is drawn as its own flag says, but the heading of
  the next step and the footers are drawn in the colour of the last text. In a process
  of two steps with one important text each, the second heading and the three footer
  texts are red; the heading is bold and the footers are normal, since these two set
  the weight themselves.
\<close>

theorem colour_not_reset_C9:
  "map (\<lambda>b. (kind b, map (\<lambda>d. (isBold d, inColor d)) (calls b)))
       (renderPDF sampleEnv a4 redProcess) =
     [(TitleBlock, [(True, (0, 0, 0)), (False, (0, 0, 0)), (False, (0, 0, 0))]),
      (HeadingBlock 0, [(True, (0, 0, 0))]),
      (TextBlock 0 0, [(True, (200, 0, 0))]),
      (HeadingBlock 1, [(True, (200, 0, 0))]),
      (TextBlock 1 0, [(True, (200, 0, 0))]),
      (FooterBlock 1, [(False, (200, 0, 0)), (False, (200, 0, 0)), (False, (200, 0, 0))])]"
  by (simp add: render_defs redProcess_def)



lemma late_facts:
  "curPage lateState = numPages lateState" "curPage lateState = 1"
  "\<not> (photos sampleStep = [] \<and> texts sampleStep = [])"
  "reserveOf sampleEnv a4 sampleStep = 180.82"
  "spaceLeft a4 lateState = 105.89"
  by (simp_all add: lateState_def sampleStep_def render_defs)

theorem heading_reserve_C2_witness:
  "curPage lateState = numPages lateState \<and> \<not> (photos sampleStep = [] \<and> texts sampleStep = []) \<and>
   spaceLeft a4 lateState = 105.89 \<and>
   (\<exists>hd rest st'.
      drawStep sampleEnv a4 0 sampleStep lateState = (hd # rest, st') \<and>
      kind hd = HeadingBlock 0 \<and> needed hd = 180.82 \<and> topY hd = margin \<and>
      map onPage (calls hd) = [2] \<and>
      list_all (\<lambda>b. list_all (\<lambda>d. 1 < onPage d) (calls b)) (hd # rest))"
proof -
  have pre: "curPage lateState = numPages lateState \<and>
      \<not> (photos sampleStep = [] \<and> texts sampleStep = [])"
    using late_facts(1,3) by simp
  from heading_reserve_C2 [of lateState sampleStep sampleEnv a4 0, THEN mp, OF pre]
  obtain hd rest st' where
    a: "drawStep sampleEnv a4 0 sampleStep lateState = (hd # rest, st') \<and>
      kind hd = HeadingBlock 0 \<and>
      needed hd =
        20 + (case photos sampleStep of
                [] \<Rightarrow> 40
              | u # _ \<Rightarrow> (case loadImage sampleEnv u of None \<Rightarrow> 120
                          | Some img \<Rightarrow> snd (scaleDims a4 img) + 12)) \<and>
      map call (calls hd) =
        [TextCall (''Schritt '' @ showInt (index sampleStep)) margin (topY hd) AlignLeft] \<and>
      (spaceLeft a4 lateState < needed hd \<longrightarrow>
         topY hd = margin \<and> map onPage (calls hd) = [curPage lateState + 1] \<and>
         (\<forall>b \<in> set (hd # rest). \<forall>d \<in> set (calls b). curPage lateState < onPage d)) \<and>
      (\<not> spaceLeft a4 lateState < needed hd \<longrightarrow>
         topY hd = yPos lateState \<and> map onPage (calls hd) = [curPage lateState])"
    by (elim exE)
  from a have eq: "drawStep sampleEnv a4 0 sampleStep lateState = (hd # rest, st')"
    and k: "kind hd = HeadingBlock 0" by simp_all
  from a have "needed hd = reserveOf sampleEnv a4 sampleStep" by (simp add: reserveOf_def)
  then have n: "needed hd = 180.82" by (simp add: late_facts(4))
  from a have "spaceLeft a4 lateState < needed hd \<longrightarrow>
         topY hd = margin \<and> map onPage (calls hd) = [curPage lateState + 1] \<and>
         (\<forall>b \<in> set (hd # rest). \<forall>d \<in> set (calls b). curPage lateState < onPage d)"
    by simp
  then have "topY hd = margin \<and> map onPage (calls hd) = [2] \<and>
     (\<forall>b \<in> set (hd # rest). \<forall>d \<in> set (calls b). 1 < onPage d)"
    by (simp add: n late_facts(2,5))
  then have "topY hd = margin \<and> map onPage (calls hd) = [2] \<and>
     list_all (\<lambda>b. list_all (\<lambda>d. 1 < onPage d) (calls b)) (hd # rest)"
    by (simp add: list_all_iff)
  with eq k n have "\<exists>hd rest st'.
      drawStep sampleEnv a4 0 sampleStep lateState = (hd # rest, st') \<and>
      kind hd = HeadingBlock 0 \<and> needed hd = 180.82 \<and> topY hd = margin \<and>
      map onPage (calls hd) = [2] \<and>
      list_all (\<lambda>b. list_all (\<lambda>d. 1 < onPage d) (calls b)) (hd # rest)"
    by (intro exI [of _ hd] exI [of _ rest] exI [of _ st']) simp
  with pre late_facts(5) show ?thesis by simp
qed

end
